theory Spec2Isabelle
  imports Complex_Main "HOL-Library.AList"
begin

section \<open>Numbers and pitch conversion\<close>

text \<open>
  JavaScript numbers are modelled as real numbers (exact arithmetic); note numbers, which
  the interfaces use as integer pitch numbers, as integers. Both synthesizer classes
  (\<^verbatim>\<open>WebAudioSynthesizer.ts\<close> and \<^verbatim>\<open>ToneSynthesizer.ts\<close>) define the two
  conversions with the same text:
  \<^verbatim>\<open>
  midiNoteToFrequency(noteNumber) { return 440 * Math.pow(2, (noteNumber - 69) / 12); }
  frequencyToMidiNote(frequency)  { return Math.round(69 + 12 * Math.log2(frequency / 440)); }
  \<close>
  \<^verbatim>\<open>Math.round\<close> rounds to the nearest integer, a tie going up. \<^verbatim>\<open>Math.log2\<close> is the
  binary logarithm on positive arguments (the only ones the theorems below apply it to).
\<close>

definition Math_round :: "real \<Rightarrow> int" where
  "Math_round x = \<lfloor>x + 1 / 2\<rfloor>"

definition Math_log2 :: "real \<Rightarrow> real" where
  "Math_log2 x = log 2 x"

definition midiNoteToFrequency :: "int \<Rightarrow> real" where
  "midiNoteToFrequency noteNumber = 440 * 2 powr ((real_of_int noteNumber - 69) / 12)"

definition frequencyToMidiNote :: "real \<Rightarrow> int" where
  "frequencyToMidiNote freq = Math_round (69 + 12 * Math_log2 (freq / 440))"

section \<open>Timers\<close>

text \<open>
  \<^verbatim>\<open>setTimeout\<close>, \<^verbatim>\<open>setInterval\<close>, \<^verbatim>\<open>clearTimeout\<close> and \<^verbatim>\<open>clearInterval\<close> act on the
  browser's timer queue. A timer is its id, its delay in milliseconds, whether it
  repeats, and its callback. The callbacks the sources register are closures; each is a
  constructor holding the variables the closure captured:
  \<^item> \<open>ToneDisposeVoice v\<close>: the timeout of \<^verbatim>\<open>ToneSynthesizer.noteOff\<close>, which captured
    the voice object (heap address \<open>v\<close>) and disposes its nodes;
  \<^item> \<open>ToneStopAllDispose\<close>: the timeout of \<^verbatim>\<open>ToneSynthesizer.stopAllNotes\<close>;
  \<^item> \<open>WebAudioDeleteNote n\<close>: the timeout of \<^verbatim>\<open>WebAudioSynthesizer.noteOff\<close>,
    which captured \<^verbatim>\<open>noteNumber\<close>;
  \<^item> \<open>SeqTick stepDurationMs nextStep\<close>: the interval callback of the sequencer effect
    of the App component, with its captured \<^verbatim>\<open>stepDurationMs\<close> and its mutable
    \<^verbatim>\<open>nextStep\<close>;
  \<^item> \<open>SeqNoteOff n\<close>: the note-off timeout the interval callback registers, which
    captured \<^verbatim>\<open>note.note\<close>.
\<close>

datatype timer_action =
    ToneDisposeVoice nat
  | ToneStopAllDispose
  | WebAudioDeleteNote int
  | SeqTick real nat
  | SeqNoteOff int

record timer =
  timer_id :: nat
  timer_delay :: real
  timer_repeats :: bool
  timer_callback :: timer_action

record browser =
  timers :: "timer list"
  next_timer_id :: nat

definition new_timer :: "bool \<Rightarrow> timer_action \<Rightarrow> real \<Rightarrow> browser \<Rightarrow> nat \<times> browser" where
  "new_timer rep cb delay b =
     (next_timer_id b,
      b\<lparr>timers := timers b @
             [\<lparr>timer_id = next_timer_id b, timer_delay = delay,
               timer_repeats = rep, timer_callback = cb\<rparr>],
        next_timer_id := Suc (next_timer_id b)\<rparr>)"

definition setTimeout :: "timer_action \<Rightarrow> real \<Rightarrow> browser \<Rightarrow> nat \<times> browser" where
  "setTimeout cb delay b = new_timer False cb delay b"

definition setInterval :: "timer_action \<Rightarrow> real \<Rightarrow> browser \<Rightarrow> nat \<times> browser" where
  "setInterval cb delay b = new_timer True cb delay b"

text \<open>\<^verbatim>\<open>clearTimeout\<close> and \<^verbatim>\<open>clearInterval\<close> share one pool of ids.\<close>

definition clearTimeout :: "nat \<Rightarrow> browser \<Rightarrow> browser" where
  "clearTimeout i b = b\<lparr>timers := filter (\<lambda>t. timer_id t \<noteq> i) (timers b)\<rparr>"

definition clearInterval :: "nat \<Rightarrow> browser \<Rightarrow> browser" where
  "clearInterval i b = clearTimeout i b"

definition find_timer :: "nat \<Rightarrow> browser \<Rightarrow> timer option" where
  "find_timer i b = find (\<lambda>t. timer_id t = i) (timers b)"

definition empty_browser :: browser where
  "empty_browser = \<lparr>timers = [], next_timer_id = 1\<rparr>"

section \<open>Synthesis parameters\<close>

datatype OscillatorType = sine | triangle | sawtooth | square

datatype FilterType = lowpass | highpass | bandpass | notch

record SynthesizerParams =
  oscillatorType :: OscillatorType
  frequency :: real
  volume :: real
  attack :: real
  decay :: real
  sustain :: real
  release :: real
  cutoff :: real
  resonance :: real
  filterType :: FilterType
  lfoRate :: real
  lfoAmount :: real
  detuneAmount :: real
  ringModAmount :: real
  wetness :: real
  coarseness :: real

text \<open>The parameters both constructors install.\<close>

definition constructor_params :: SynthesizerParams where
  "constructor_params =
     \<lparr>oscillatorType = square, frequency = 440, volume = 0.3, attack = 0.1, decay = 0.2,
      sustain = 0.5, release = 0.3, cutoff = 4000, resonance = 1, filterType = lowpass,
      lfoRate = 5, lfoAmount = 0, detuneAmount = 0, ringModAmount = 0, wetness = 0.3,
      coarseness = 0.5\<rparr>"

text \<open>
  \<^verbatim>\<open>Partial<SynthesizerParams>\<close>: every field may be absent. \<^verbatim>\<open>{ ...a, ...b }\<close> takes
  each field from \<open>b\<close> where \<open>b\<close> has it and from \<open>a\<close> otherwise.
\<close>

record Partial_SynthesizerParams =
  new_oscillatorType :: "OscillatorType option"
  new_frequency :: "real option"
  new_volume :: "real option"
  new_attack :: "real option"
  new_decay :: "real option"
  new_sustain :: "real option"
  new_release :: "real option"
  new_cutoff :: "real option"
  new_resonance :: "real option"
  new_filterType :: "FilterType option"
  new_lfoRate :: "real option"
  new_lfoAmount :: "real option"
  new_detuneAmount :: "real option"
  new_ringModAmount :: "real option"
  new_wetness :: "real option"
  new_coarseness :: "real option"

definition merge_params :: "SynthesizerParams \<Rightarrow> Partial_SynthesizerParams \<Rightarrow> SynthesizerParams" where
  "merge_params p q =
     \<lparr>oscillatorType = (case new_oscillatorType q of None \<Rightarrow> oscillatorType p | Some x \<Rightarrow> x),
      frequency = (case new_frequency q of None \<Rightarrow> frequency p | Some x \<Rightarrow> x),
      volume = (case new_volume q of None \<Rightarrow> volume p | Some x \<Rightarrow> x),
      attack = (case new_attack q of None \<Rightarrow> attack p | Some x \<Rightarrow> x),
      decay = (case new_decay q of None \<Rightarrow> decay p | Some x \<Rightarrow> x),
      sustain = (case new_sustain q of None \<Rightarrow> sustain p | Some x \<Rightarrow> x),
      release = (case new_release q of None \<Rightarrow> release p | Some x \<Rightarrow> x),
      cutoff = (case new_cutoff q of None \<Rightarrow> cutoff p | Some x \<Rightarrow> x),
      resonance = (case new_resonance q of None \<Rightarrow> resonance p | Some x \<Rightarrow> x),
      filterType = (case new_filterType q of None \<Rightarrow> filterType p | Some x \<Rightarrow> x),
      lfoRate = (case new_lfoRate q of None \<Rightarrow> lfoRate p | Some x \<Rightarrow> x),
      lfoAmount = (case new_lfoAmount q of None \<Rightarrow> lfoAmount p | Some x \<Rightarrow> x),
      detuneAmount = (case new_detuneAmount q of None \<Rightarrow> detuneAmount p | Some x \<Rightarrow> x),
      ringModAmount = (case new_ringModAmount q of None \<Rightarrow> ringModAmount p | Some x \<Rightarrow> x),
      wetness = (case new_wetness q of None \<Rightarrow> wetness p | Some x \<Rightarrow> x),
      coarseness = (case new_coarseness q of None \<Rightarrow> coarseness p | Some x \<Rightarrow> x)\<rparr>"

definition no_params :: Partial_SynthesizerParams where
  "no_params =
     \<lparr>new_oscillatorType = None, new_frequency = None, new_volume = None,
      new_attack = None, new_decay = None, new_sustain = None, new_release = None,
      new_cutoff = None, new_resonance = None, new_filterType = None, new_lfoRate = None,
      new_lfoAmount = None, new_detuneAmount = None, new_ringModAmount = None,
      new_wetness = None, new_coarseness = None\<rparr>"

definition all_params :: "SynthesizerParams \<Rightarrow> Partial_SynthesizerParams" where
  "all_params p =
     \<lparr>new_oscillatorType = Some (oscillatorType p),
      new_frequency = Some (frequency p),
      new_volume = Some (volume p),
      new_attack = Some (attack p),
      new_decay = Some (decay p),
      new_sustain = Some (sustain p),
      new_release = Some (release p),
      new_cutoff = Some (cutoff p),
      new_resonance = Some (resonance p),
      new_filterType = Some (filterType p),
      new_lfoRate = Some (lfoRate p),
      new_lfoAmount = Some (lfoAmount p),
      new_detuneAmount = Some (detuneAmount p),
      new_ringModAmount = Some (ringModAmount p),
      new_wetness = Some (wetness p),
      new_coarseness = Some (coarseness p)\<rparr>"

text \<open>
  A JavaScript \<^verbatim>\<open>Set\<close> keeps its members in insertion order and holds each once.
\<close>

definition Set_add :: "'a \<Rightarrow> 'a list \<Rightarrow> 'a list" where
  "Set_add x xs = (if x \<in> set xs then xs else xs @ [x])"

definition Set_delete :: "'a \<Rightarrow> 'a list \<Rightarrow> 'a list" where
  "Set_delete x xs = removeAll x xs"

definition Set_has :: "'a list \<Rightarrow> 'a \<Rightarrow> bool" where
  "Set_has xs x = (x \<in> set xs)"

text \<open>
  A JavaScript \<^verbatim>\<open>Map<number, T>\<close> is an association list in insertion order:
  \<^verbatim>\<open>get\<close> is \<^const>\<open>map_of\<close>, \<^verbatim>\<open>set\<close> is \<^const>\<open>AList.update\<close> (an existing key
  keeps its place), \<^verbatim>\<open>delete\<close> is \<^const>\<open>AList.delete\<close>. The values are the addresses
  of node objects in a heap, since timer callbacks and maps refer to the same objects.
\<close>

definition heap_modify :: "nat \<Rightarrow> ('a \<Rightarrow> 'a) \<Rightarrow> 'a list \<Rightarrow> 'a list" where
  "heap_modify a f h = (if a < length h then h[a := f (h ! a)] else h)"

section \<open>The Tone.js engine\<close>

text \<open>
  \<^verbatim>\<open>src/synthesizer/ToneSynthesizer.ts\<close>, the class the App component imports. A voice
  is a \<^verbatim>\<open>Tone.Synth\<close>, a \<^verbatim>\<open>Tone.Filter\<close> and a \<^verbatim>\<open>Tone.LFO\<close>; each record
  keeps what the class sets on the object and which of its methods the class has called.
  Calls into the library are taken not to throw, so the \<^verbatim>\<open>catch\<close> blocks of the source,
  which only swallow library exceptions, have no branch here. An LFO built by
  \<^verbatim>\<open>new Tone.LFO()\<close> has the library's default options: \<open>lfo_options = None\<close>.
  A call \<^verbatim>\<open>param.rampTo(value, rampTime)\<close> is logged on the node as the pair
  \<open>(value, rampTime)\<close>.
\<close>

record Tone_Synth =
  synth_oscillator :: OscillatorType
  synth_attack :: real
  synth_decay :: real
  synth_sustain :: real
  synth_release :: real
  synth_frequency :: real
  synth_triggerAttack :: "real option"
  synth_triggerRelease :: "real option"
  synth_disposed :: bool

record Tone_Filter =
  tfilter_frequency :: real
  tfilter_frequency_rampTo :: "(real \<times> real) list"
  tfilter_type :: FilterType
  tfilter_Q :: real
  tfilter_Q_rampTo :: "(real \<times> real) list"
  tfilter_disposed :: bool

record Tone_LFO_options =
  lfo_opt_frequency :: real
  lfo_opt_min :: real
  lfo_opt_max :: real

record Tone_LFO =
  lfo_options :: "Tone_LFO_options option"
  lfo_frequency_rampTo :: "(real \<times> real) list"
  lfo_connected_to_frequency :: bool
  lfo_started :: bool
  lfo_stopped :: bool
  lfo_disposed :: bool

record VoiceNode =
  vn_synth :: Tone_Synth
  vn_filter :: Tone_Filter
  vn_lfo :: Tone_LFO

record ToneSynthesizer =
  tone_heap :: "VoiceNode list"
  tone_voices :: "(int \<times> nat) list"
  tone_params :: SynthesizerParams
  tone_activeNotes :: "int list"

definition tone_constructor :: ToneSynthesizer where
  "tone_constructor =
     \<lparr>tone_heap = [], tone_voices = [], tone_params = constructor_params,
      tone_activeNotes = []\<rparr>"

definition default_Tone_LFO :: Tone_LFO where
  "default_Tone_LFO =
     \<lparr>lfo_options = None, lfo_frequency_rampTo = [], lfo_connected_to_frequency = False,
      lfo_started = False, lfo_stopped = False, lfo_disposed = False\<rparr>"

text \<open>
  \<^verbatim>\<open>updateParams(params)\<close> merges into the current parameters and pushes the filter
  and LFO settings to every registered voice, ramped over 0.1 s.
\<close>

definition tone_updateVoiceParams :: "SynthesizerParams \<Rightarrow> VoiceNode \<Rightarrow> VoiceNode" where
  "tone_updateVoiceParams p v =
     v\<lparr>vn_filter := (vn_filter v)
          \<lparr>tfilter_frequency_rampTo := tfilter_frequency_rampTo (vn_filter v) @ [(cutoff p, 0.1)],
           tfilter_Q_rampTo := tfilter_Q_rampTo (vn_filter v) @ [(resonance p, 0.1)],
           tfilter_type := filterType p\<rparr>,
       vn_lfo := (vn_lfo v)
          \<lparr>lfo_frequency_rampTo := lfo_frequency_rampTo (vn_lfo v) @ [(lfoRate p, 0.1)]\<rparr>\<rparr>"

definition tone_updateParams :: "Partial_SynthesizerParams \<Rightarrow> ToneSynthesizer \<Rightarrow> ToneSynthesizer" where
  "tone_updateParams q s =
     (let p = merge_params (tone_params s) q
      in s\<lparr>tone_params := p,
            tone_heap := fold (\<lambda>(n, voice). heap_modify voice (tone_updateVoiceParams p))
                              (tone_voices s) (tone_heap s)\<rparr>)"

text \<open>\<^verbatim>\<open>voice.synth.triggerRelease(now); voice.lfo.stop()\<close>\<close>

definition tone_release_voice :: "real \<Rightarrow> VoiceNode \<Rightarrow> VoiceNode" where
  "tone_release_voice now v =
     v\<lparr>vn_synth := (vn_synth v)\<lparr>synth_triggerRelease := Some now\<rparr>,
       vn_lfo := (vn_lfo v)\<lparr>lfo_stopped := True\<rparr>\<rparr>"

text \<open>\<^verbatim>\<open>voice.synth.dispose(); voice.filter.dispose(); voice.lfo.dispose()\<close>\<close>

definition tone_dispose_voice :: "VoiceNode \<Rightarrow> VoiceNode" where
  "tone_dispose_voice v =
     v\<lparr>vn_synth := (vn_synth v)\<lparr>synth_disposed := True\<rparr>,
       vn_filter := (vn_filter v)\<lparr>tfilter_disposed := True\<rparr>,
       vn_lfo := (vn_lfo v)\<lparr>lfo_disposed := True\<rparr>\<rparr>"

text \<open>
  \<^verbatim>\<open>noteOff(noteNumber)\<close>: with a voice registered under the note, release it, register
  the disposal timeout, and delete the note from both collections before returning.
\<close>

fun tone_noteOff :: "int \<Rightarrow> real \<Rightarrow> ToneSynthesizer \<times> browser \<Rightarrow> ToneSynthesizer \<times> browser" where
  "tone_noteOff noteNumber now (s, b) =
     (case map_of (tone_voices s) noteNumber of
        None \<Rightarrow> (s, b)
      | Some voice \<Rightarrow>
          (let (tid, b') = setTimeout (ToneDisposeVoice voice) (release (tone_params s) * 1000 + 100) b
           in (s\<lparr>tone_heap := heap_modify voice (tone_release_voice now) (tone_heap s),
                 tone_voices := AList.delete noteNumber (tone_voices s),
                 tone_activeNotes := Set_delete noteNumber (tone_activeNotes s)\<rparr>, b')))"

text \<open>
  The body of \<^verbatim>\<open>noteOn\<close> after the re-trigger check: build the synth, the filter and the
  LFO from the current parameters, trigger the attack, and register the voice. The
  parameters \<^verbatim>\<open>_velocity\<close> and \<^verbatim>\<open>_slideTime\<close> are not used by the source.
\<close>

definition tone_new_voice :: "SynthesizerParams \<Rightarrow> real \<Rightarrow> real \<Rightarrow> VoiceNode" where
  "tone_new_voice p freq now =
     \<lparr>vn_synth =
        \<lparr>synth_oscillator = oscillatorType p, synth_attack = attack p, synth_decay = decay p,
         synth_sustain = sustain p, synth_release = release p, synth_frequency = freq,
         synth_triggerAttack = Some now, synth_triggerRelease = None, synth_disposed = False\<rparr>,
      vn_filter =
        \<lparr>tfilter_frequency = cutoff p, tfilter_frequency_rampTo = [],
         tfilter_type = filterType p, tfilter_Q = resonance p, tfilter_Q_rampTo = [],
         tfilter_disposed = False\<rparr>,
      vn_lfo =
        (if lfoAmount p > 0
         then \<lparr>lfo_options = Some \<lparr>lfo_opt_frequency = lfoRate p, lfo_opt_min = freq * 0.95,
                                   lfo_opt_max = freq * 1.05\<rparr>,
               lfo_frequency_rampTo = [], lfo_connected_to_frequency = True, lfo_started = True, lfo_stopped = False,
               lfo_disposed = False\<rparr>
         else default_Tone_LFO)\<rparr>"

definition tone_build_voice :: "int \<Rightarrow> real \<Rightarrow> real \<Rightarrow> real \<Rightarrow> ToneSynthesizer \<Rightarrow> ToneSynthesizer" where
  "tone_build_voice noteNumber velocity slideTime now s =
     (let freq = midiNoteToFrequency noteNumber;
          voice = length (tone_heap s)
      in s\<lparr>tone_heap := tone_heap s @ [tone_new_voice (tone_params s) freq now],
            tone_voices := AList.update noteNumber voice (tone_voices s),
            tone_activeNotes := Set_add noteNumber (tone_activeNotes s)\<rparr>)"

fun tone_noteOn ::
  "int \<Rightarrow> real \<Rightarrow> real \<Rightarrow> real \<Rightarrow> ToneSynthesizer \<times> browser \<Rightarrow> ToneSynthesizer \<times> browser" where
  "tone_noteOn noteNumber velocity slideTime now (s, b) =
     (let (s1, b1) = (if Set_has (tone_activeNotes s) noteNumber
                      then tone_noteOff noteNumber now (s, b) else (s, b))
      in (tone_build_voice noteNumber velocity slideTime now s1, b1))"

text \<open>
  \<^verbatim>\<open>stopAllNotes()\<close>: release every registered voice now and register one timeout. The
  map and the set are cleared by the timeout's callback, not by the call.
\<close>

fun tone_stopAllNotes :: "real \<Rightarrow> ToneSynthesizer \<times> browser \<Rightarrow> ToneSynthesizer \<times> browser" where
  "tone_stopAllNotes now (s, b) =
     (let h = fold (\<lambda>(n, voice). heap_modify voice (tone_release_voice now)) (tone_voices s) (tone_heap s);
          (tid, b') = setTimeout ToneStopAllDispose (release (tone_params s) * 1000 + 100) b
      in (s\<lparr>tone_heap := h\<rparr>, b'))"

text \<open>The two timeout callbacks of the class, run when their timers fire.\<close>

definition tone_dispose_callback :: "nat \<Rightarrow> ToneSynthesizer \<Rightarrow> ToneSynthesizer" where
  "tone_dispose_callback voice s = s\<lparr>tone_heap := heap_modify voice tone_dispose_voice (tone_heap s)\<rparr>"

definition tone_stopAll_callback :: "ToneSynthesizer \<Rightarrow> ToneSynthesizer" where
  "tone_stopAll_callback s =
     s\<lparr>tone_heap := fold (\<lambda>(n, voice). heap_modify voice tone_dispose_voice) (tone_voices s) (tone_heap s),
       tone_voices := [],
       tone_activeNotes := []\<rparr>"

section \<open>The Web Audio engine\<close>

text \<open>
  \<^verbatim>\<open>src/synthesizer/WebAudioSynthesizer.ts\<close>. The class keeps six maps from note numbers
  to node objects and the set of active notes. One call of \<^verbatim>\<open>noteOn\<close> creates the nodes
  of one voice, so the heap holds one record per voice and a map entry is the address of
  the voice whose node of that kind it holds. An \<^verbatim>\<open>AudioParam\<close> keeps the automation
  calls made on it, in order; \<open>SetCurrentValueAtTime t\<close> stands for
  \<^verbatim>\<open>p.setValueAtTime(p.value, t)\<close>, whose value is the one the parameter has when the
  call is made. A new oscillator is a sine at 440 Hz with no detune, a new gain node has
  gain 1 (the Web Audio defaults). The log \<open>wv_connections\<close> holds the
  \<^verbatim>\<open>connect\<close> calls of the voice in the order they are made.
\<close>

datatype param_event =
    SetValueAtTime real real
  | SetCurrentValueAtTime real
  | LinearRampToValueAtTime real real
  | CancelScheduledValues real

record OscillatorNode =
  osc_type :: OscillatorType
  osc_frequency_value :: real
  osc_frequency_events :: "param_event list"
  osc_detune :: real
  osc_started :: bool
  osc_stop :: "real option"

record BiquadFilterNode =
  biquad_type :: FilterType
  biquad_frequency :: real
  biquad_Q :: real

record GainNode =
  gain_value :: real
  gain_events :: "param_event list"

record RingMod_nodes =
  ringModOsc :: OscillatorNode
  ringModGain :: GainNode
  ringModCarrier :: GainNode

record LFO_nodes =
  lfo_node :: OscillatorNode
  lfoGain :: GainNode

datatype audio_node =
    N_osc | N_osc_frequency | N_filter | N_gainNode | N_masterGain
  | N_ringModOsc | N_ringModGain | N_ringModCarrier | N_ringModCarrier_gain
  | N_lfo | N_lfoGain

record WebAudio_voice =
  wv_osc :: OscillatorNode
  wv_filter :: BiquadFilterNode
  wv_gainNode :: GainNode
  wv_ringMod :: "RingMod_nodes option"
  wv_lfo :: "LFO_nodes option"
  wv_connections :: "(audio_node \<times> audio_node) list"

record WebAudioSynthesizer =
  wa_heap :: "WebAudio_voice list"
  wa_oscillators :: "(int \<times> nat) list"
  wa_gains :: "(int \<times> nat) list"
  wa_filters :: "(int \<times> nat) list"
  wa_lfos :: "(int \<times> nat) list"
  wa_ringModOscillators :: "(int \<times> nat) list"
  wa_ringModGains :: "(int \<times> nat) list"
  wa_masterGain :: real
  wa_params :: SynthesizerParams
  wa_activeNotes :: "int list"

definition wa_constructor :: WebAudioSynthesizer where
  "wa_constructor =
     \<lparr>wa_heap = [], wa_oscillators = [], wa_gains = [], wa_filters = [], wa_lfos = [],
      wa_ringModOscillators = [], wa_ringModGains = [], wa_masterGain = 1,
      wa_params = constructor_params, wa_activeNotes = []\<rparr>"

definition createOscillator :: OscillatorNode where
  "createOscillator =
     \<lparr>osc_type = sine, osc_frequency_value = 440, osc_frequency_events = [], osc_detune = 0,
      osc_started = False, osc_stop = None\<rparr>"

definition createGain :: GainNode where
  "createGain = \<lparr>gain_value = 1, gain_events = []\<rparr>"

definition wa_updateParams ::
  "Partial_SynthesizerParams \<Rightarrow> WebAudioSynthesizer \<Rightarrow> WebAudioSynthesizer" where
  "wa_updateParams q s = s\<lparr>wa_params := merge_params (wa_params s) q\<rparr>"

definition wa_setMasterVolume :: "real \<Rightarrow> WebAudioSynthesizer \<Rightarrow> WebAudioSynthesizer" where
  "wa_setMasterVolume vol s = s\<lparr>wa_masterGain := max 0 (min 1 vol)\<rparr>"

text \<open>
  The release of \<^verbatim>\<open>noteOff\<close> on the gain node and on the oscillator:
  \<^verbatim>\<open>
  gain.gain.cancelScheduledValues(now);
  gain.gain.setValueAtTime(gain.gain.value, now);
  gain.gain.linearRampToValueAtTime(0, now + this.params.release);
  osc.stop(now + this.params.release);
  \<close>
\<close>

definition wa_release_gain :: "real \<Rightarrow> real \<Rightarrow> WebAudio_voice \<Rightarrow> WebAudio_voice" where
  "wa_release_gain now rel v =
     v\<lparr>wv_gainNode := (wv_gainNode v)\<lparr>gain_events := gain_events (wv_gainNode v) @
         [CancelScheduledValues now, SetCurrentValueAtTime now,
          LinearRampToValueAtTime 0 (now + rel)]\<rparr>\<rparr>"

definition wa_stop_osc :: "real \<Rightarrow> WebAudio_voice \<Rightarrow> WebAudio_voice" where
  "wa_stop_osc t v = v\<lparr>wv_osc := (wv_osc v)\<lparr>osc_stop := Some t\<rparr>\<rparr>"

definition wa_stop_lfo :: "real \<Rightarrow> WebAudio_voice \<Rightarrow> WebAudio_voice" where
  "wa_stop_lfo t v =
     v\<lparr>wv_lfo := map_option (\<lambda>l. l\<lparr>lfo_node := (lfo_node l)\<lparr>osc_stop := Some t\<rparr>\<rparr>) (wv_lfo v)\<rparr>"

text \<open>
  \<^verbatim>\<open>noteOff(noteNumber)\<close>: the release is applied when both a gain node and an
  oscillator are registered; a registered LFO is stopped and deleted from its map; then,
  in every case, a timeout is registered whose callback deletes the note from
  \<^verbatim>\<open>oscillators\<close>, \<^verbatim>\<open>gains\<close>, \<^verbatim>\<open>filters\<close> and \<^verbatim>\<open>activeNotes\<close>.
\<close>

fun wa_noteOff ::
  "int \<Rightarrow> real \<Rightarrow> WebAudioSynthesizer \<times> browser \<Rightarrow> WebAudioSynthesizer \<times> browser" where
  "wa_noteOff noteNumber now (s, b) =
     (let gain = map_of (wa_gains s) noteNumber;
          osc = map_of (wa_oscillators s) noteNumber;
          lfo = map_of (wa_lfos s) noteNumber;
          rel = release (wa_params s);
          s1 = (case (gain, osc) of
                  (Some g, Some oa) \<Rightarrow>
                    s\<lparr>wa_heap := heap_modify oa (wa_stop_osc (now + rel))
                                    (heap_modify g (wa_release_gain now rel) (wa_heap s))\<rparr>
                | _ \<Rightarrow> s);
          s2 = (case lfo of
                  Some l \<Rightarrow> s1\<lparr>wa_heap := heap_modify l (wa_stop_lfo now) (wa_heap s1),
                               wa_lfos := AList.delete noteNumber (wa_lfos s1)\<rparr>
                | None \<Rightarrow> s1);
          (tid, b') = setTimeout (WebAudioDeleteNote noteNumber) (rel * 1000 + 100) b
      in (s2, b'))"

definition wa_delete_callback :: "int \<Rightarrow> WebAudioSynthesizer \<Rightarrow> WebAudioSynthesizer" where
  "wa_delete_callback noteNumber s =
     s\<lparr>wa_oscillators := AList.delete noteNumber (wa_oscillators s),
       wa_gains := AList.delete noteNumber (wa_gains s),
       wa_filters := AList.delete noteNumber (wa_filters s),
       wa_activeNotes := Set_delete noteNumber (wa_activeNotes s)\<rparr>"

text \<open>
  The voice \<^verbatim>\<open>noteOn\<close> builds, from the parameters, the target frequency, the notes
  active when it is built, and the arguments. \<^verbatim>\<open>Math.max(...Array.from(activeNotes))\<close>
  is \<^const>\<open>Max\<close> of the members; it is evaluated only for a set that is not empty.
\<close>

definition ringMod_enabled :: "SynthesizerParams \<Rightarrow> bool" where
  "ringMod_enabled p = (ringModAmount p > 0 \<and> ringModAmount p < 1)"

definition wa_frequency_events :: "int list \<Rightarrow> real \<Rightarrow> real \<Rightarrow> real \<Rightarrow> param_event list" where
  "wa_frequency_events active freq slideTime now =
     (if slideTime > 0
      then (let lastFrequency = (if length active > 0
                                 then midiNoteToFrequency (Max (set active))
                                 else freq * 0.5)
            in [SetValueAtTime lastFrequency now, LinearRampToValueAtTime freq (now + slideTime)])
      else [SetValueAtTime freq now])"

definition wa_new_voice ::
  "SynthesizerParams \<Rightarrow> int list \<Rightarrow> real \<Rightarrow> real \<Rightarrow> real \<Rightarrow> real \<Rightarrow> WebAudio_voice" where
  "wa_new_voice p active freq velocity slideTime now =
     (let osc = createOscillator
                  \<lparr>osc_type := oscillatorType p,
                   osc_frequency_events := wa_frequency_events active freq slideTime now,
                   osc_detune := (if detuneAmount p \<noteq> 0 then detuneAmount p else 0),
                   osc_started := True\<rparr>;
          filt = \<lparr>biquad_type = filterType p, biquad_frequency = cutoff p, biquad_Q = resonance p\<rparr>;
          gainNode = createGain
                  \<lparr>gain_events :=
                     [SetValueAtTime 0 now,
                      LinearRampToValueAtTime (velocity * volume p) (now + attack p),
                      LinearRampToValueAtTime (sustain p * velocity * volume p)
                                              (now + attack p + decay p)]\<rparr>;
          ring = (if ringMod_enabled p
                  then Some \<lparr>ringModOsc = createOscillator
                                 \<lparr>osc_frequency_value := freq * 1.5, osc_type := sine,
                                  osc_started := True\<rparr>,
                             ringModGain = createGain
                                 \<lparr>gain_value := max 0 (min 0.5 (ringModAmount p * 0.5))\<rparr>,
                             ringModCarrier = createGain\<rparr>
                  else None);
          conn_ring = (if ringMod_enabled p
                       then [(N_ringModOsc, N_ringModGain), (N_ringModGain, N_ringModCarrier_gain),
                             (N_osc, N_filter), (N_ringModCarrier, N_filter)]
                       else [(N_osc, N_filter)]);
          lfo = (if lfoAmount p > 0
                 then Some \<lparr>lfo_node = createOscillator
                                \<lparr>osc_frequency_value := lfoRate p, osc_started := True\<rparr>,
                            lfoGain = createGain\<lparr>gain_value := lfoAmount p * 100\<rparr>\<rparr>
                 else None);
          conn_lfo = (if lfoAmount p > 0
                      then [(N_lfo, N_lfoGain), (N_lfoGain, N_osc_frequency)] else []);
          conn_nodes = (if ring = None then [(N_osc, N_filter)] else [])
                       @ [(N_filter, N_gainNode), (N_gainNode, N_masterGain)]
      in \<lparr>wv_osc = osc, wv_filter = filt, wv_gainNode = gainNode, wv_ringMod = ring,
          wv_lfo = lfo, wv_connections = conn_ring @ conn_lfo @ conn_nodes\<rparr>)"

definition wa_build_voice ::
  "int \<Rightarrow> real \<Rightarrow> real \<Rightarrow> real \<Rightarrow> WebAudioSynthesizer \<Rightarrow> WebAudioSynthesizer" where
  "wa_build_voice noteNumber velocity slideTime now s =
     (let freq = midiNoteToFrequency noteNumber;
          v = wa_new_voice (wa_params s) (wa_activeNotes s) freq velocity slideTime now;
          a = length (wa_heap s);
          s1 = s\<lparr>wa_heap := wa_heap s @ [v],
                 wa_lfos := (if wv_lfo v \<noteq> None then AList.update noteNumber a (wa_lfos s)
                             else wa_lfos s),
                 wa_oscillators := AList.update noteNumber a (wa_oscillators s),
                 wa_gains := AList.update noteNumber a (wa_gains s),
                 wa_filters := AList.update noteNumber a (wa_filters s)\<rparr>;
          s2 = (if wv_ringMod v \<noteq> None
                then s1\<lparr>wa_ringModOscillators := AList.update noteNumber a (wa_ringModOscillators s1),
                        wa_ringModGains := AList.update noteNumber a (wa_ringModGains s1)\<rparr>
                else s1)
      in s2\<lparr>wa_activeNotes := Set_add noteNumber (wa_activeNotes s2)\<rparr>)"

fun wa_noteOn ::
  "int \<Rightarrow> real \<Rightarrow> real \<Rightarrow> real \<Rightarrow> WebAudioSynthesizer \<times> browser \<Rightarrow> WebAudioSynthesizer \<times> browser" where
  "wa_noteOn noteNumber velocity slideTime now (s, b) =
     (let (s1, b1) = (if Set_has (wa_activeNotes s) noteNumber
                      then wa_noteOff noteNumber now (s, b) else (s, b))
      in (wa_build_voice noteNumber velocity slideTime now s1, b1))"

definition wa_getActiveNotes :: "WebAudioSynthesizer \<Rightarrow> int list" where
  "wa_getActiveNotes s = wa_activeNotes s"

text \<open>
  \<^verbatim>\<open>stopAllNotes()\<close>: stop every registered oscillator, ring-modulator oscillator and
  LFO, mute every registered gain and ring-modulator gain, then clear the six maps and
  the set, all before returning.
\<close>

definition wa_mute :: "real \<Rightarrow> GainNode \<Rightarrow> GainNode" where
  "wa_mute now g = g\<lparr>gain_events := gain_events g @ [CancelScheduledValues now, SetValueAtTime 0 now]\<rparr>"

definition wa_stop_ringModOsc :: "real \<Rightarrow> WebAudio_voice \<Rightarrow> WebAudio_voice" where
  "wa_stop_ringModOsc t v =
     v\<lparr>wv_ringMod := map_option (\<lambda>r. r\<lparr>ringModOsc := (ringModOsc r)\<lparr>osc_stop := Some t\<rparr>\<rparr>) (wv_ringMod v)\<rparr>"

definition wa_mute_gainNode :: "real \<Rightarrow> WebAudio_voice \<Rightarrow> WebAudio_voice" where
  "wa_mute_gainNode now v = v\<lparr>wv_gainNode := wa_mute now (wv_gainNode v)\<rparr>"

definition wa_mute_ringModGains :: "real \<Rightarrow> WebAudio_voice \<Rightarrow> WebAudio_voice" where
  "wa_mute_ringModGains now v =
     v\<lparr>wv_ringMod := map_option (\<lambda>r. r\<lparr>ringModGain := wa_mute now (ringModGain r),
                                        ringModCarrier := wa_mute now (ringModCarrier r)\<rparr>) (wv_ringMod v)\<rparr>"

definition forEach_node :: "(int \<times> nat) list \<Rightarrow> ('a \<Rightarrow> 'a) \<Rightarrow> 'a list \<Rightarrow> 'a list" where
  "forEach_node m f h = fold (\<lambda>(n, a). heap_modify a f) m h"

definition wa_stopAllNotes :: "real \<Rightarrow> WebAudioSynthesizer \<Rightarrow> WebAudioSynthesizer" where
  "wa_stopAllNotes now s =
     (let h1 = forEach_node (wa_oscillators s) (wa_stop_osc now) (wa_heap s);
          h2 = forEach_node (wa_ringModOscillators s) (wa_stop_ringModOsc now) h1;
          h3 = forEach_node (wa_lfos s) (wa_stop_lfo now) h2;
          h4 = forEach_node (wa_gains s) (wa_mute_gainNode now) h3;
          h5 = forEach_node (wa_ringModGains s) (wa_mute_ringModGains now) h4
      in s\<lparr>wa_heap := h5, wa_oscillators := [], wa_gains := [], wa_filters := [], wa_lfos := [],
            wa_ringModOscillators := [], wa_ringModGains := [], wa_activeNotes := []\<rparr>)"

section \<open>The store: sequencer pattern, step index, tempo\<close>

text \<open>
  \<^verbatim>\<open>src/synthesizer/store.ts\<close>. Of the state the store holds, the fields the sequencer
  and the key handlers use are modelled: the parameters, the active keys, the current
  preset, the pattern, the step index, the tempo and the running flag. The field
  \<^verbatim>\<open>note\<close> of a step is \<open>step_note\<close>. A JavaScript array may have holes, so a pattern
  is a list of optional steps, \<open>None\<close> for an element that is \<^verbatim>\<open>undefined\<close>.
\<close>

record SequencerNote =
  step_note :: int
  step_velocity :: real
  step_duration :: real
  step_slide :: bool
  step_enabled :: bool

record SynthesizerState =
  params :: SynthesizerParams
  activeKeys :: "int list"
  currentPreset :: string
  sequencerSteps :: "SequencerNote option list"
  currentStep :: nat
  tempo :: real
  isSequencerRunning :: bool

record PresetDefinition =
  preset_name :: string
  preset_params :: SynthesizerParams
  preset_tempo :: real
  preset_sequencerSteps :: "SequencerNote option list"

definition SequencerStep :: "int \<Rightarrow> real \<Rightarrow> real \<Rightarrow> bool \<Rightarrow> bool \<Rightarrow> SequencerNote option" where
  "SequencerStep n v d sl en =
     Some \<lparr>step_note = n, step_velocity = v, step_duration = d, step_slide = sl, step_enabled = en\<rparr>"

text \<open>The six entries of the table \<^verbatim>\<open>PRESETS\<close>.\<close>

definition preset_acidTechno :: PresetDefinition where
  "preset_acidTechno =
     \<lparr>preset_name = ''Acid Techno'',
      preset_params =
      \<lparr>oscillatorType = sawtooth, frequency = 440, volume = 0.32, attack = 0.005,
       decay = 0.15, sustain = 0.25, release = 0.12, cutoff = 1300, resonance = 10,
       filterType = lowpass, lfoRate = 3.8, lfoAmount = 0.25, detuneAmount = 0.08,
       ringModAmount = 0, wetness = 0.25, coarseness = 0.6\<rparr>,
      preset_tempo = 125,
      preset_sequencerSteps =
       [
        SequencerStep 36 0.92 0.8 False True,
        SequencerStep 36 0.85 0.5 False True,
        SequencerStep 40 0.92 0.8 True True,
        SequencerStep 43 0.92 0.8 False True,
        SequencerStep 41 0.92 0.8 True True,
        SequencerStep 38 0.92 0.6 False True,
        SequencerStep 0 0.92 0.5 False False,
        SequencerStep 38 0.92 0.8 True True,
        SequencerStep 43 0.92 0.8 False True,
        SequencerStep 41 0.92 0.8 True True,
        SequencerStep 39 0.88 0.6 False True,
        SequencerStep 36 0.92 1.2 False True,
        SequencerStep 40 0.92 0.8 False True,
        SequencerStep 43 0.92 0.8 True True,
        SequencerStep 38 0.92 0.6 False True,
        SequencerStep 36 0.92 0.8 False True
       ]\<rparr>"

definition preset_padAmbient :: PresetDefinition where
  "preset_padAmbient =
     \<lparr>preset_name = ''Pad/Ambient'',
      preset_params =
      \<lparr>oscillatorType = sine, frequency = 440, volume = 0.15, attack = 0.5,
       decay = 0.8, sustain = 0.6, release = 1.0, cutoff = 4000, resonance = 1,
       filterType = lowpass, lfoRate = 1.2, lfoAmount = 0.35, detuneAmount = 0.2,
       ringModAmount = 0, wetness = 0.6, coarseness = 0.3\<rparr>,
      preset_tempo = 60,
      preset_sequencerSteps =
       [
        SequencerStep 48 0.6 1.0 False True,
        SequencerStep 0 0.6 1.0 False False,
        SequencerStep 52 0.6 1.0 False True,
        SequencerStep 0 0.6 1.0 False False,
        SequencerStep 55 0.6 1.0 False True,
        SequencerStep 0 0.6 1.0 False False,
        SequencerStep 60 0.6 1.0 True True,
        SequencerStep 0 0.6 1.0 False False,
        SequencerStep 48 0.6 1.0 False True,
        SequencerStep 0 0.6 1.0 False False,
        SequencerStep 52 0.6 1.0 False True,
        SequencerStep 0 0.6 1.0 False False,
        SequencerStep 55 0.6 1.0 False True,
        SequencerStep 0 0.6 1.0 False False,
        SequencerStep 57 0.6 1.0 True True,
        SequencerStep 0 0.6 1.0 False False
       ]\<rparr>"

definition preset_leadBright :: PresetDefinition where
  "preset_leadBright =
     \<lparr>preset_name = ''Lead/Bright'',
      preset_params =
      \<lparr>oscillatorType = square, frequency = 440, volume = 0.22, attack = 0.005,
       decay = 0.12, sustain = 0.4, release = 0.1, cutoff = 5000, resonance = 3,
       filterType = lowpass, lfoRate = 7, lfoAmount = 0.12, detuneAmount = 0.15,
       ringModAmount = 0, wetness = 0.2, coarseness = 0.7\<rparr>,
      preset_tempo = 140,
      preset_sequencerSteps =
       [
        SequencerStep 60 0.9 0.6 False True,
        SequencerStep 62 0.8 0.5 False True,
        SequencerStep 64 0.85 0.7 False True,
        SequencerStep 65 0.9 0.6 False True,
        SequencerStep 67 0.8 0.5 False True,
        SequencerStep 69 0.85 0.7 False True,
        SequencerStep 70 0.9 0.6 True True,
        SequencerStep 72 0.8 0.5 True True,
        SequencerStep 64 0.85 0.7 False True,
        SequencerStep 60 0.9 0.6 False True,
        SequencerStep 0 0.8 0.5 False False,
        SequencerStep 62 0.85 0.7 False True,
        SequencerStep 67 0.9 0.6 False True,
        SequencerStep 0 0.8 0.5 False False,
        SequencerStep 64 0.85 0.7 False True,
        SequencerStep 60 0.9 0.8 False True
       ]\<rparr>"

definition preset_bassDeep :: PresetDefinition where
  "preset_bassDeep =
     \<lparr>preset_name = ''Bass/Deep'',
      preset_params =
      \<lparr>oscillatorType = sawtooth, frequency = 440, volume = 0.35, attack = 0.005,
       decay = 0.2, sustain = 0.2, release = 0.25, cutoff = 900, resonance = 12,
       filterType = lowpass, lfoRate = 2.5, lfoAmount = 0.2, detuneAmount = 0.1,
       ringModAmount = 0, wetness = 0.15, coarseness = 0.8\<rparr>,
      preset_tempo = 95,
      preset_sequencerSteps =
       [
        SequencerStep 24 0.95 0.8 False True,
        SequencerStep 0 0.95 0.4 False False,
        SequencerStep 29 0.92 0.8 True True,
        SequencerStep 0 0.95 0.4 False False,
        SequencerStep 26 0.93 0.8 True True,
        SequencerStep 0 0.95 0.4 False False,
        SequencerStep 22 0.92 0.8 False True,
        SequencerStep 0 0.95 0.4 False False,
        SequencerStep 24 0.95 0.8 False True,
        SequencerStep 0 0.95 0.4 False False,
        SequencerStep 31 0.93 0.8 True True,
        SequencerStep 0 0.95 0.4 False False,
        SequencerStep 26 0.92 0.8 True True,
        SequencerStep 0 0.95 0.4 False False,
        SequencerStep 24 0.93 1.0 False True,
        SequencerStep 0 0.95 0.4 False False
       ]\<rparr>"

definition preset_pluckStaccato :: PresetDefinition where
  "preset_pluckStaccato =
     \<lparr>preset_name = ''Pluck/Staccato'',
      preset_params =
      \<lparr>oscillatorType = triangle, frequency = 440, volume = 0.24, attack = 0.002,
       decay = 0.08, sustain = 0.05, release = 0.05, cutoff = 3500, resonance = 4,
       filterType = highpass, lfoRate = 5, lfoAmount = 0.1, detuneAmount = 0.1,
       ringModAmount = 0, wetness = 0.1, coarseness = 0.4\<rparr>,
      preset_tempo = 160,
      preset_sequencerSteps =
       [
        SequencerStep 54 0.9 0.3 False True,
        SequencerStep 57 0.8 0.3 False True,
        SequencerStep 59 0.85 0.3 False True,
        SequencerStep 54 0.9 0.3 False True,
        SequencerStep 62 0.8 0.3 False True,
        SequencerStep 57 0.85 0.3 False True,
        SequencerStep 54 0.9 0.3 False True,
        SequencerStep 0 0.8 0.3 False False,
        SequencerStep 59 0.85 0.3 False True,
        SequencerStep 54 0.9 0.3 False True,
        SequencerStep 57 0.8 0.3 False True,
        SequencerStep 62 0.85 0.3 False True,
        SequencerStep 54 0.9 0.3 False True,
        SequencerStep 59 0.8 0.3 False True,
        SequencerStep 57 0.85 0.3 False True,
        SequencerStep 54 0.9 0.3 False True
       ]\<rparr>"

definition preset_experimental :: PresetDefinition where
  "preset_experimental =
     \<lparr>preset_name = ''Experimental'',
      preset_params =
      \<lparr>oscillatorType = square, frequency = 440, volume = 0.18, attack = 0.08,
       decay = 0.2, sustain = 0.25, release = 0.15, cutoff = 2000, resonance = 5,
       filterType = bandpass, lfoRate = 6, lfoAmount = 0.4, detuneAmount = 0.3,
       ringModAmount = 0.6, wetness = 0.4, coarseness = 0.9\<rparr>,
      preset_tempo = 110,
      preset_sequencerSteps =
       [
        SequencerStep 45 0.8 0.7 False True,
        SequencerStep 0 0.8 0.3 False False,
        SequencerStep 50 0.7 0.7 True True,
        SequencerStep 0 0.8 0.3 False False,
        SequencerStep 47 0.75 0.7 True True,
        SequencerStep 0 0.8 0.3 False False,
        SequencerStep 52 0.8 0.7 False True,
        SequencerStep 0 0.8 0.3 False False,
        SequencerStep 43 0.75 0.7 True True,
        SequencerStep 0 0.8 0.3 False False,
        SequencerStep 48 0.8 0.7 False True,
        SequencerStep 0 0.8 0.3 False False,
        SequencerStep 50 0.7 0.7 True True,
        SequencerStep 0 0.8 0.3 False False,
        SequencerStep 45 0.75 0.7 True True,
        SequencerStep 0 0.8 0.3 False False
       ]\<rparr>"

text \<open>
  \<^verbatim>\<open>PRESETS[presetName]\<close> is a property read on an object literal: one of the six own
  keys gives its definition; a name the object inherits from \<^verbatim>\<open>Object.prototype\<close>
  gives a value that is truthy and is not a preset definition; any other name gives
  \<^verbatim>\<open>undefined\<close>.
\<close>

datatype preset_lookup = Own_property PresetDefinition | Inherited_property | Undefined_property

definition Object_prototype_names :: "string list" where
  "Object_prototype_names =
     [''constructor'', ''toString'', ''toLocaleString'', ''valueOf'', ''hasOwnProperty'',
      ''isPrototypeOf'', ''propertyIsEnumerable'', ''__proto__'', ''__defineGetter__'',
      ''__defineSetter__'', ''__lookupGetter__'', ''__lookupSetter__'']"

definition PRESETS :: "string \<Rightarrow> preset_lookup" where
  "PRESETS k =
     (if k = ''acidTechno'' then Own_property preset_acidTechno
      else if k = ''padAmbient'' then Own_property preset_padAmbient
      else if k = ''leadBright'' then Own_property preset_leadBright
      else if k = ''bassDeep'' then Own_property preset_bassDeep
      else if k = ''pluckStaccato'' then Own_property preset_pluckStaccato
      else if k = ''experimental'' then Own_property preset_experimental
      else if k \<in> set Object_prototype_names then Inherited_property
      else Undefined_property)"

text \<open>
  \<^verbatim>\<open>generateRandomSequence()\<close> draws from \<^verbatim>\<open>Math.random()\<close>; \<open>rnd k\<close> is the draw
  number \<open>k\<close>. A step reads one draw for the rest decision, one more for the pitch
  when the step is not a rest, then one each for velocity, duration, slide and enabled.
\<close>

definition random_step :: "(nat \<Rightarrow> real) \<Rightarrow> nat \<Rightarrow> SequencerNote \<times> nat" where
  "random_step rnd k =
     (let (n, k1) = (if rnd k < 0.3 then (0, k + 1)
                     else (\<lfloor>rnd (k + 1) * (40 - 20 + 1)\<rfloor> + 20, k + 2))
      in (\<lparr>step_note = n,
           step_velocity = 0.6 + rnd k1 * 0.4,
           step_duration = 0.5 + rnd (k1 + 1) * 0.5,
           step_slide = (rnd (k1 + 2) < 0.3),
           step_enabled = (rnd (k1 + 3) < 0.7)\<rparr>, k1 + 4))"

fun random_steps :: "nat \<Rightarrow> (nat \<Rightarrow> real) \<Rightarrow> nat \<Rightarrow> SequencerNote option list" where
  "random_steps 0 rnd k = []"
| "random_steps (Suc len) rnd k =
     (let (st, k') = random_step rnd k in Some st # random_steps len rnd k')"

definition generateRandomSequence :: "(nat \<Rightarrow> real) \<Rightarrow> SequencerNote option list" where
  "generateRandomSequence rnd = random_steps 16 rnd 0"

text \<open>
  \<^verbatim>\<open>newSteps[index] = note\<close> on a copy of the array: an index inside the array replaces
  the element, an index from the length on makes the array longer (the elements between
  are holes), and a key that is not an array index (here: a negative number, or one from
  \<open>2^32 - 1\<close> on) is stored as a property and leaves the elements alone.
\<close>

definition array_set :: "'a option list \<Rightarrow> int \<Rightarrow> 'a \<Rightarrow> 'a option list" where
  "array_set xs i v =
     (if i < 0 \<or> 4294967295 \<le> i then xs
      else if nat i < length xs then xs[nat i := Some v]
      else xs @ replicate (nat i - length xs) None @ [Some v])"

definition array_get :: "'a option list \<Rightarrow> nat \<Rightarrow> 'a option" where
  "array_get xs i = (if i < length xs then xs ! i else None)"

definition initial_store :: SynthesizerState where
  "initial_store =
     \<lparr>params = preset_params preset_bassDeep, activeKeys = [], currentPreset = ''bassDeep'',
      sequencerSteps = preset_sequencerSteps preset_bassDeep, currentStep = 0,
      tempo = preset_tempo preset_bassDeep, isSequencerRunning = False\<rparr>"

definition setParams :: "Partial_SynthesizerParams \<Rightarrow> SynthesizerState \<Rightarrow> SynthesizerState" where
  "setParams newParams s = s\<lparr>params := merge_params (params s) newParams\<rparr>"

definition setActiveKey :: "int \<Rightarrow> bool \<Rightarrow> SynthesizerState \<Rightarrow> SynthesizerState" where
  "setActiveKey k active s =
     s\<lparr>activeKeys := (if active then Set_add k (activeKeys s) else Set_delete k (activeKeys s))\<rparr>"

definition setSequencerStep :: "int \<Rightarrow> SequencerNote \<Rightarrow> SynthesizerState \<Rightarrow> SynthesizerState" where
  "setSequencerStep index nt s = s\<lparr>sequencerSteps := array_set (sequencerSteps s) index nt\<rparr>"

definition setCurrentStep :: "nat \<Rightarrow> SynthesizerState \<Rightarrow> SynthesizerState" where
  "setCurrentStep st s = s\<lparr>currentStep := st\<rparr>"

definition setTempo :: "real \<Rightarrow> SynthesizerState \<Rightarrow> SynthesizerState" where
  "setTempo bpm s = s\<lparr>tempo := max 20 (min 300 bpm)\<rparr>"

definition setIsSequencerRunning :: "bool \<Rightarrow> SynthesizerState \<Rightarrow> SynthesizerState" where
  "setIsSequencerRunning running s = s\<lparr>isSequencerRunning := running\<rparr>"

definition clearSequencer :: "SynthesizerState \<Rightarrow> SynthesizerState" where
  "clearSequencer s =
     s\<lparr>sequencerSteps := replicate 16 (SequencerStep 0 0.8 0.5 False True), currentStep := 0\<rparr>"

text \<open>
  \<^verbatim>\<open>loadPreset(presetName)\<close>: no change when the lookup is \<^verbatim>\<open>undefined\<close>. For a name
  inherited from \<^verbatim>\<open>Object.prototype\<close> the fields \<^verbatim>\<open>params\<close>, \<^verbatim>\<open>tempo\<close> and
  \<^verbatim>\<open>sequencerSteps\<close> of the looked-up value are \<^verbatim>\<open>undefined\<close> and are stored as such:
  the result is no state of the store's type, which is \<open>None\<close> here.
\<close>

definition loadPreset :: "string \<Rightarrow> SynthesizerState \<Rightarrow> SynthesizerState option" where
  "loadPreset presetName s =
     (case PRESETS presetName of
        Undefined_property \<Rightarrow> Some s
      | Inherited_property \<Rightarrow> None
      | Own_property preset \<Rightarrow>
          Some (s\<lparr>params := preset_params preset, tempo := preset_tempo preset,
                  sequencerSteps := preset_sequencerSteps preset, currentStep := 0,
                  currentPreset := presetName\<rparr>))"

definition store_generateRandomSequence :: "(nat \<Rightarrow> real) \<Rightarrow> SynthesizerState \<Rightarrow> SynthesizerState" where
  "store_generateRandomSequence rnd s = s\<lparr>sequencerSteps := generateRandomSequence rnd\<rparr>"

text \<open>
  The public operations of the store that touch the sequencer, as commands, and the
  states they reach from the initial one. A command whose result is no state of the
  store's type ends the run.
\<close>

datatype store_op =
    Op_setSequencerStep int SequencerNote
  | Op_setCurrentStep nat
  | Op_setTempo real
  | Op_setIsSequencerRunning bool
  | Op_clearSequencer
  | Op_loadPreset string
  | Op_generateRandomSequence "nat \<Rightarrow> real"

fun store_apply :: "store_op \<Rightarrow> SynthesizerState \<Rightarrow> SynthesizerState option" where
  "store_apply (Op_setSequencerStep i nt) s = Some (setSequencerStep i nt s)"
| "store_apply (Op_setCurrentStep st) s = Some (setCurrentStep st s)"
| "store_apply (Op_setTempo bpm) s = Some (setTempo bpm s)"
| "store_apply (Op_setIsSequencerRunning r) s = Some (setIsSequencerRunning r s)"
| "store_apply Op_clearSequencer s = Some (clearSequencer s)"
| "store_apply (Op_loadPreset name) s = loadPreset name s"
| "store_apply (Op_generateRandomSequence rnd) s = Some (store_generateRandomSequence rnd s)"

fun store_run :: "store_op list \<Rightarrow> SynthesizerState \<Rightarrow> SynthesizerState option" where
  "store_run [] s = Some s"
| "store_run (c # cs) s = (case store_apply c s of None \<Rightarrow> None | Some s' \<Rightarrow> store_run cs s')"

text \<open>A step index that stays inside a pattern of 16 steps (or is no array index).\<close>

fun op_in_range :: "store_op \<Rightarrow> bool" where
  "op_in_range (Op_setSequencerStep i nt) = (i < 16)"
| "op_in_range _ = True"

section \<open>The App component: the sequencer clock\<close>

text \<open>
  The component file (\<^verbatim>\<open>App\<close>; it imports the class of \<^verbatim>\<open>ToneSynthesizer.ts\<close>).
  The state is what its refs and the store hold, and the browser's timer queue. Two
  logs are kept for stating properties: \<open>synth_calls\<close>, the calls made on
  \<^verbatim>\<open>synthRef.current\<close> with their arguments, and \<open>fired\<close>, the callbacks of the timers
  that have fired. \<open>effect_has_cleanup\<close> says whether the last run of the sequencer
  effect returned its cleanup function (the branch for a stopped sequencer returns none).
  A thrown \<^verbatim>\<open>TypeError\<close> ends the callback that raised it and keeps the state reached.
\<close>

datatype synth_call =
    Call_updateParams Partial_SynthesizerParams
  | Call_noteOn int real real
  | Call_noteOff int
  | Call_stopAllNotes

datatype js_error = TypeError

record App =
  synthRef :: "ToneSynthesizer option"
  store :: SynthesizerState
  sequencerIntervalRef :: "nat option"
  pendingNoteOffsRef :: "nat list"
  sequencerStepsRef :: "SequencerNote option list"
  effect_has_cleanup :: bool
  window :: browser
  synth_calls :: "synth_call list"
  fired :: "timer_action list"

definition initial_App :: App where
  "initial_App =
     \<lparr>synthRef = None, store = initial_store, sequencerIntervalRef = None,
      pendingNoteOffsRef = [], sequencerStepsRef = sequencerSteps initial_store,
      effect_has_cleanup = False, window = empty_browser, synth_calls = [], fired = []\<rparr>"

text \<open>\<^verbatim>\<open>if (synthRef.current) synthRef.current.m(...)\<close>, for the three methods called.\<close>

definition app_noteOn :: "int \<Rightarrow> real \<Rightarrow> real \<Rightarrow> real \<Rightarrow> App \<Rightarrow> App" where
  "app_noteOn n velocity slideTime now a =
     (case synthRef a of
        None \<Rightarrow> a
      | Some sy \<Rightarrow>
          (let (sy', b') = tone_noteOn n velocity slideTime now (sy, window a)
           in a\<lparr>synthRef := Some sy', window := b',
                 synth_calls := synth_calls a @ [Call_noteOn n velocity slideTime]\<rparr>))"

definition app_noteOff :: "int \<Rightarrow> real \<Rightarrow> App \<Rightarrow> App" where
  "app_noteOff n now a =
     (case synthRef a of
        None \<Rightarrow> a
      | Some sy \<Rightarrow>
          (let (sy', b') = tone_noteOff n now (sy, window a)
           in a\<lparr>synthRef := Some sy', window := b',
                 synth_calls := synth_calls a @ [Call_noteOff n]\<rparr>))"

definition app_stopAllNotes :: "real \<Rightarrow> App \<Rightarrow> App" where
  "app_stopAllNotes now a =
     (case synthRef a of
        None \<Rightarrow> a
      | Some sy \<Rightarrow>
          (let (sy', b') = tone_stopAllNotes now (sy, window a)
           in a\<lparr>synthRef := Some sy', window := b',
                 synth_calls := synth_calls a @ [Call_stopAllNotes]\<rparr>))"

text \<open>
  \<^verbatim>\<open>stopAllAudio\<close>: cancel every pending note-off timeout and clear their set, stop all
  voices, and release every active keyboard key.
\<close>

definition release_key :: "real \<Rightarrow> int \<Rightarrow> App \<Rightarrow> App" where
  "release_key now k a =
     (let a1 = app_noteOff k now a in a1\<lparr>store := setActiveKey k False (store a1)\<rparr>)"

definition stopAllAudio :: "real \<Rightarrow> App \<Rightarrow> App" where
  "stopAllAudio now a =
     (let a1 = a\<lparr>window := fold clearTimeout (pendingNoteOffsRef a) (window a),
                  pendingNoteOffsRef := []\<rparr>;
          a2 = app_stopAllNotes now a1
      in fold (release_key now) (activeKeys (store a)) a2)"

text \<open>
  \<^verbatim>\<open>if (sequencerIntervalRef.current) { clearInterval(...); sequencerIntervalRef.current = null; }\<close>
  A timer id is a number, and the number 0 is falsy.
\<close>

definition clear_sequencer_interval :: "App \<Rightarrow> App" where
  "clear_sequencer_interval a =
     (case sequencerIntervalRef a of
        None \<Rightarrow> a
      | Some i \<Rightarrow> (if i = 0 then a
                   else a\<lparr>window := clearInterval i (window a), sequencerIntervalRef := None\<rparr>))"

text \<open>
  The body of the sequencer effect. Stopped: clear the interval, call
  \<^verbatim>\<open>stopAllAudio\<close>, return no cleanup. Running: compute the step period from the tempo,
  start the interval with \<^verbatim>\<open>nextStep = currentStep\<close>, return the cleanup.
\<close>

definition sequencer_effect :: "real \<Rightarrow> App \<Rightarrow> App" where
  "sequencer_effect now a =
     (if \<not> isSequencerRunning (store a)
      then (stopAllAudio now (clear_sequencer_interval a))\<lparr>effect_has_cleanup := False\<rparr>
      else (let stepDurationMs = (60000 / tempo (store a)) / 4;
                nextStep = currentStep (store a);
                (i, b') = setInterval (SeqTick stepDurationMs nextStep) stepDurationMs (window a)
            in a\<lparr>sequencerIntervalRef := Some i, window := b', effect_has_cleanup := True\<rparr>))"

definition sequencer_effect_cleanup :: "App \<Rightarrow> App" where
  "sequencer_effect_cleanup a =
     (let a1 = clear_sequencer_interval a
      in a1\<lparr>window := fold clearTimeout (pendingNoteOffsRef a1) (window a1),
            pendingNoteOffsRef := []\<rparr>)"

text \<open>
  When a dependency of the effect has changed, React runs the cleanup the previous run
  returned, if any, and then the body again.
\<close>

definition rerun_sequencer_effect :: "real \<Rightarrow> App \<Rightarrow> App" where
  "rerun_sequencer_effect now a =
     sequencer_effect now (if effect_has_cleanup a then sequencer_effect_cleanup a else a)"

text \<open>
  The effect that passes the store's parameters, all of them, to the synthesizer.
\<close>

definition params_effect :: "App \<Rightarrow> App" where
  "params_effect a =
     (case synthRef a of
        None \<Rightarrow> a
      | Some sy \<Rightarrow>
          a\<lparr>synthRef := Some (tone_updateParams (all_params (params (store a))) sy),
            synth_calls := synth_calls a @ [Call_updateParams (all_params (params (store a)))]\<rparr>)"

text \<open>The effect that keeps \<^verbatim>\<open>sequencerStepsRef\<close> equal to the store's pattern.\<close>

definition steps_effect :: "App \<Rightarrow> App" where
  "steps_effect a = a\<lparr>sequencerStepsRef := sequencerSteps (store a)\<rparr>"

text \<open>
  The callback of the interval, for the timer \<open>tid\<close> whose closure holds
  \<open>stepDurationMs\<close> and \<open>nextStep0\<close>: advance the step (\<open>tick_advance\<close>), read the
  step, and for a step to play call \<^verbatim>\<open>noteOn\<close> and register the note-off timeout
  (\<open>schedule_noteOff\<close>). Reading a field of an \<^verbatim>\<open>undefined\<close> step throws.
\<close>

definition set_closure :: "nat \<Rightarrow> timer_action \<Rightarrow> browser \<Rightarrow> browser" where
  "set_closure tid cb b =
     b\<lparr>timers := map (\<lambda>t. if timer_id t = tid \<and> timer_repeats t then t\<lparr>timer_callback := cb\<rparr> else t)
                       (timers b)\<rparr>"

definition tick_advance :: "nat \<Rightarrow> real \<Rightarrow> nat \<Rightarrow> App \<Rightarrow> App" where
  "tick_advance tid stepDurationMs nextStep a =
     a\<lparr>window := set_closure tid (SeqTick stepDurationMs nextStep) (window a),
       store := setCurrentStep nextStep (store a)\<rparr>"

definition schedule_noteOff :: "real \<Rightarrow> SequencerNote \<Rightarrow> App \<Rightarrow> App" where
  "schedule_noteOff stepDurationMs nt a =
     (let (timeoutId, b') = setTimeout (SeqNoteOff (step_note nt))
                              (stepDurationMs * step_duration nt * 0.9) (window a)
      in a\<lparr>window := b', pendingNoteOffsRef := Set_add timeoutId (pendingNoteOffsRef a)\<rparr>)"

definition sequencer_tick :: "nat \<Rightarrow> real \<Rightarrow> nat \<Rightarrow> real \<Rightarrow> App \<Rightarrow> (js_error \<times> App) + App" where
  "sequencer_tick tid stepDurationMs nextStep0 now a =
     (let nextStep = (nextStep0 + 1) mod 16;
          a1 = tick_advance tid stepDurationMs nextStep a
      in case array_get (sequencerStepsRef a1) nextStep of
           None \<Rightarrow> Inl (TypeError, a1)
         | Some nt \<Rightarrow>
             (if step_enabled nt \<and> step_note nt > 0 \<and> synthRef a1 \<noteq> None
              then (let slideTime = (if step_slide nt then 0.3 else 0);
                        a2 = app_noteOn (step_note nt) (step_velocity nt) slideTime now a1
                    in Inr (schedule_noteOff stepDurationMs nt a2))
              else Inr a1))"

text \<open>The callback of a note-off timeout with id \<open>timeoutId\<close>.\<close>

definition sequencer_noteOff_timeout :: "nat \<Rightarrow> int \<Rightarrow> real \<Rightarrow> App \<Rightarrow> App" where
  "sequencer_noteOff_timeout timeoutId n now a =
     (let a1 = app_noteOff n now a
      in a1\<lparr>pendingNoteOffsRef := Set_delete timeoutId (pendingNoteOffsRef a1)\<rparr>)"

text \<open>
  A timer of the queue fires: a timeout leaves the queue, an interval stays; the callback
  runs and is logged. No timer of the Web Audio class is ever registered by this
  component.
\<close>

definition fire_timer :: "nat \<Rightarrow> real \<Rightarrow> App \<Rightarrow> (js_error \<times> App) + App" where
  "fire_timer tid now a =
     (case find_timer tid (window a) of
        None \<Rightarrow> Inr a
      | Some t \<Rightarrow>
          (let a0 = a\<lparr>window := (if timer_repeats t then window a else clearTimeout tid (window a)),
                      fired := fired a @ [timer_callback t]\<rparr>
           in case timer_callback t of
                SeqTick stepDurationMs nextStep0 \<Rightarrow> sequencer_tick tid stepDurationMs nextStep0 now a0
              | SeqNoteOff n \<Rightarrow> Inr (sequencer_noteOff_timeout tid n now a0)
              | ToneDisposeVoice v \<Rightarrow>
                  Inr (a0\<lparr>synthRef := map_option (tone_dispose_callback v) (synthRef a0)\<rparr>)
              | ToneStopAllDispose \<Rightarrow>
                  Inr (a0\<lparr>synthRef := map_option tone_stopAll_callback (synthRef a0)\<rparr>)
              | WebAudioDeleteNote n \<Rightarrow> Inr a0))"

definition state_of :: "(js_error \<times> App) + App \<Rightarrow> App" where
  "state_of r = (case r of Inl (e, a) \<Rightarrow> a | Inr a \<Rightarrow> a)"

text \<open>
  React re-runs an effect after a render in which one of its dependencies differs from
  the previous render's. The sequencer effect lists
  \<^verbatim>\<open>[isSequencerRunning, tempo, currentStep, setCurrentStep]\<close>: a boolean and two numbers of
  the store, compared by value, and an action of the store, which is the same function at
  every render. \<open>commit_sequencer_effect now before after\<close> is the commit that follows a
  change of the store from \<open>before\<close> to \<open>after\<close>; \<open>tick_and_commit\<close> is a timer firing,
  followed by that commit.
\<close>

definition sequencer_deps_changed :: "SynthesizerState \<Rightarrow> SynthesizerState \<Rightarrow> bool" where
  "sequencer_deps_changed s s' =
     (isSequencerRunning s' \<noteq> isSequencerRunning s \<or> tempo s' \<noteq> tempo s
      \<or> currentStep s' \<noteq> currentStep s)"

definition commit_sequencer_effect :: "real \<Rightarrow> App \<Rightarrow> App \<Rightarrow> App" where
  "commit_sequencer_effect now before after =
     (if sequencer_deps_changed (store before) (store after)
      then rerun_sequencer_effect now after else after)"

definition tick_and_commit :: "nat \<Rightarrow> real \<Rightarrow> App \<Rightarrow> App" where
  "tick_and_commit tid now a = commit_sequencer_effect now a (state_of (fire_timer tid now a))"

text \<open>The handlers of the component.\<close>

definition handleKeyDown :: "int \<Rightarrow> real \<Rightarrow> App \<Rightarrow> App" where
  "handleKeyDown midiNote now a =
     (if synthRef a \<noteq> None \<and> \<not> Set_has (activeKeys (store a)) midiNote
      then (let a1 = app_noteOn midiNote 1 0 now a
            in a1\<lparr>store := setActiveKey midiNote True (store a1)\<rparr>)
      else a)"

definition handleKeyUp :: "int \<Rightarrow> real \<Rightarrow> App \<Rightarrow> App" where
  "handleKeyUp midiNote now a =
     (if synthRef a \<noteq> None \<and> Set_has (activeKeys (store a)) midiNote
      then (let a1 = app_noteOff midiNote now a
            in a1\<lparr>store := setActiveKey midiNote False (store a1)\<rparr>)
      else a)"

definition handleClearSequencer :: "real \<Rightarrow> App \<Rightarrow> App" where
  "handleClearSequencer now a =
     (let a1 = (if synthRef a \<noteq> None \<and> isSequencerRunning (store a) then stopAllAudio now a else a)
      in a1\<lparr>store := clearSequencer (store a1)\<rparr>)"

definition handleRandomizeSequencer :: "(nat \<Rightarrow> real) \<Rightarrow> real \<Rightarrow> App \<Rightarrow> App" where
  "handleRandomizeSequencer rnd now a =
     (let a1 = (if synthRef a \<noteq> None \<and> isSequencerRunning (store a) then stopAllAudio now a else a)
      in a1\<lparr>store := store_generateRandomSequence rnd (store a1)\<rparr>)"

definition handlePresetChange :: "string \<Rightarrow> real \<Rightarrow> App \<Rightarrow> App option" where
  "handlePresetChange presetName now a =
     (let a1 = stopAllAudio now a
      in map_option (\<lambda>s. a1\<lparr>store := s\<rparr>) (loadPreset presetName (store a1)))"

text \<open>
  The synchronous part of the initialisation effect: create the synthesizer, load the
  preset \<^verbatim>\<open>bassDeep\<close>, generate a random pattern.
\<close>

definition init_effect :: "(nat \<Rightarrow> real) \<Rightarrow> App \<Rightarrow> App option" where
  "init_effect rnd a =
     map_option (\<lambda>s. a\<lparr>synthRef := Some tone_constructor, store := store_generateRandomSequence rnd s\<rparr>)
       (loadPreset ''bassDeep'' (store a))"

text \<open>
  What can happen to the component, as events: the initialisation; React running the
  parameter effect, the steps effect, or the sequencer effect (cleanup, then body), which
  it does after a render in which a dependency of that effect has changed; a timer of the
  queue firing; and the user's actions on the keyboard, the parameter controls and the
  sequencer. Where a synthesizer call is made the event carries the audio clock's time.
  A run ends (\<open>None\<close>) at an event that leaves the store without a state of its type.
\<close>

datatype app_event =
    Ev_init "nat \<Rightarrow> real"
  | Ev_paramsEffect
  | Ev_stepsEffect
  | Ev_sequencerEffect real
  | Ev_timer nat real
  | Ev_togglePlay
  | Ev_keyDown int real
  | Ev_keyUp int real
  | Ev_setParams Partial_SynthesizerParams
  | Ev_stepChange int SequencerNote
  | Ev_tempoChange real
  | Ev_clear real
  | Ev_random "nat \<Rightarrow> real" real
  | Ev_presetChange string real

fun app_event_step :: "app_event \<Rightarrow> App \<Rightarrow> App option" where
  "app_event_step (Ev_init rnd) a = init_effect rnd a"
| "app_event_step Ev_paramsEffect a = Some (params_effect a)"
| "app_event_step Ev_stepsEffect a = Some (steps_effect a)"
| "app_event_step (Ev_sequencerEffect now) a = Some (rerun_sequencer_effect now a)"
| "app_event_step (Ev_timer tid now) a = Some (state_of (fire_timer tid now a))"
| "app_event_step Ev_togglePlay a =
     Some (a\<lparr>store := setIsSequencerRunning (\<not> isSequencerRunning (store a)) (store a)\<rparr>)"
| "app_event_step (Ev_keyDown n now) a = Some (handleKeyDown n now a)"
| "app_event_step (Ev_keyUp n now) a = Some (handleKeyUp n now a)"
| "app_event_step (Ev_setParams q) a = Some (a\<lparr>store := setParams q (store a)\<rparr>)"
| "app_event_step (Ev_stepChange i nt) a = Some (a\<lparr>store := setSequencerStep i nt (store a)\<rparr>)"
| "app_event_step (Ev_tempoChange bpm) a = Some (a\<lparr>store := setTempo bpm (store a)\<rparr>)"
| "app_event_step (Ev_clear now) a = Some (handleClearSequencer now a)"
| "app_event_step (Ev_random rnd now) a = Some (handleRandomizeSequencer rnd now a)"
| "app_event_step (Ev_presetChange name now) a = handlePresetChange name now a"

fun app_run :: "app_event list \<Rightarrow> App \<Rightarrow> App option" where
  "app_run [] a = Some a"
| "app_run (e # es) a = (case app_event_step e a of None \<Rightarrow> None | Some a' \<Rightarrow> app_run es a')"

text \<open>
  Stopping the sequencer: the running flag becomes false and React re-runs the effect.
\<close>

definition stop_sequencer :: "real \<Rightarrow> App \<Rightarrow> App" where
  "stop_sequencer now a =
     rerun_sequencer_effect now (a\<lparr>store := setIsSequencerRunning False (store a)\<rparr>)"

text \<open>The timers the sequencer clock creates, and the states whose queue holds none.\<close>

fun is_seq_callback :: "timer_action \<Rightarrow> bool" where
  "is_seq_callback (SeqTick ms ns) = True"
| "is_seq_callback (SeqNoteOff n) = True"
| "is_seq_callback _ = False"

definition seq_timers :: "browser \<Rightarrow> timer list" where
  "seq_timers b = filter (\<lambda>t. is_seq_callback (timer_callback t)) (timers b)"

definition no_seq_timers :: "App \<Rightarrow> bool" where
  "no_seq_timers a = (seq_timers (window a) = [])"

text \<open>
  The bookkeeping of the sequencer's timers: every interval of the sequencer in the queue
  is the one \<^verbatim>\<open>sequencerIntervalRef\<close> holds (a truthy id) and the effect has a
  cleanup to run; every note-off timeout in the queue is a one-shot timer whose id is in
  \<^verbatim>\<open>pendingNoteOffsRef\<close>.
\<close>

definition tracked :: "App \<Rightarrow> timer \<Rightarrow> bool" where
  "tracked a t =
     (case timer_callback t of
        SeqTick ms ns \<Rightarrow>
          timer_id t \<noteq> 0 \<and> sequencerIntervalRef a = Some (timer_id t) \<and> effect_has_cleanup a
      | SeqNoteOff n \<Rightarrow> \<not> timer_repeats t \<and> timer_id t \<in> set (pendingNoteOffsRef a)
      | _ \<Rightarrow> True)"

definition seq_timers_tracked :: "App \<Rightarrow> bool" where
  "seq_timers_tracked a =
     (0 < next_timer_id (window a) \<and> sequencerIntervalRef a \<noteq> Some 0
      \<and> list_all (tracked a) (timers (window a)))"

text \<open>The state in which a stopped sequencer rests.\<close>

definition stopped_quiet :: "App \<Rightarrow> bool" where
  "stopped_quiet a =
     (seq_timers_tracked a \<and> no_seq_timers a \<and> \<not> isSequencerRunning (store a))"

section \<open>Proof vocabulary for the sequencer clock\<close>

text \<open>The two kinds of timers the sequencer creates.\<close>

fun is_tick :: "timer_action \<Rightarrow> bool" where
  "is_tick (SeqTick ms ns) = True"
| "is_tick _ = False"

fun is_noteOff :: "timer_action \<Rightarrow> bool" where
  "is_noteOff (SeqNoteOff n) = True"
| "is_noteOff _ = False"

text \<open>
  The note-off timeouts waiting in a queue, in order: the note and the delay of every
  one-shot timer whose callback is a note-off of the sequencer.
\<close>

definition noteOff_entry :: "timer \<Rightarrow> (int \<times> real) list" where
  "noteOff_entry t =
     (case timer_callback t of
        SeqNoteOff n \<Rightarrow> (if timer_repeats t then [] else [(n, timer_delay t)])
      | _ \<Rightarrow> [])"

definition noteOff_schedule :: "browser \<Rightarrow> (int \<times> real) list" where
  "noteOff_schedule b = concat (map noteOff_entry (timers b))"

text \<open>
  A queue that has grown by timers of the synthesizer only; a step of the component that
  leaves the sequencer's refs alone and adds only such timers; a step that leaves the
  queue and the sequencer's refs alone.
\<close>

definition tone_timers_only :: "browser \<Rightarrow> browser \<Rightarrow> bool" where
  "tone_timers_only b b' =
     (\<exists>ts. timers b' = timers b @ ts \<and> list_all (\<lambda>t. \<not> is_seq_callback (timer_callback t)) ts
           \<and> next_timer_id b \<le> next_timer_id b')"

definition synth_only :: "App \<Rightarrow> App \<Rightarrow> bool" where
  "synth_only a a' =
     (tone_timers_only (window a) (window a')
      \<and> sequencerIntervalRef a' = sequencerIntervalRef a
      \<and> pendingNoteOffsRef a' = pendingNoteOffsRef a
      \<and> effect_has_cleanup a' = effect_has_cleanup a
      \<and> isSequencerRunning (store a') = isSequencerRunning (store a)
      \<and> fired a' = fired a
      \<and> (synthRef a' = None) = (synthRef a = None))"

definition same_sequencer :: "App \<Rightarrow> App \<Rightarrow> bool" where
  "same_sequencer a a' =
     (window a' = window a \<and> sequencerIntervalRef a' = sequencerIntervalRef a
      \<and> pendingNoteOffsRef a' = pendingNoteOffsRef a
      \<and> effect_has_cleanup a' = effect_has_cleanup a \<and> fired a' = fired a)"

text \<open>
  The first statements of \<^verbatim>\<open>stopAllAudio\<close> and the last of the effect's cleanup:
  cancel every pending note-off timeout and clear their set.
\<close>

definition cancel_pending :: "App \<Rightarrow> App" where
  "cancel_pending a =
     a\<lparr>window := fold clearTimeout (pendingNoteOffsRef a) (window a), pendingNoteOffsRef := []\<rparr>"

text \<open>
  A step after which the stopped sequencer still rests, and during which only timers that
  are not the sequencer's have fired.
\<close>

definition quiet_step :: "App \<Rightarrow> App \<Rightarrow> bool" where
  "quiet_step a a' =
     (stopped_quiet a'
      \<and> (\<exists>ext. fired a' = fired a @ ext \<and> list_all (\<lambda>cb. \<not> is_seq_callback cb) ext))"

section \<open>Observations on voices\<close>

text \<open>
  The voice a call of \<^verbatim>\<open>noteOn\<close> creates is the last object of the heap it returns.
\<close>

definition tone_created_voice :: "ToneSynthesizer \<times> browser \<Rightarrow> VoiceNode" where
  "tone_created_voice r = last (tone_heap (fst r))"

definition wa_created_voice :: "WebAudioSynthesizer \<times> browser \<Rightarrow> WebAudio_voice" where
  "wa_created_voice r = last (wa_heap (fst r))"

text \<open>A voice is released once its release has been triggered (Tone.js), or once its
  oscillator has a stop time (Web Audio).\<close>

definition tone_released :: "VoiceNode \<Rightarrow> bool" where
  "tone_released v = (synth_triggerRelease (vn_synth v) \<noteq> None)"

definition wa_released :: "WebAudio_voice \<Rightarrow> bool" where
  "wa_released v = (osc_stop (wv_osc v) \<noteq> None)"

text \<open>How often the \<^verbatim>\<open>connect\<close> calls of a voice connect the oscillator to the filter.\<close>

definition osc_filter_connections :: "WebAudio_voice \<Rightarrow> nat" where
  "osc_filter_connections v = count_list (wv_connections v) (N_osc, N_filter)"

text \<open>
  The LFO of a voice. In the Tone.js class it is attached when it is connected to the
  synth's frequency and started, and it sweeps between its \<open>min\<close> and \<open>max\<close>: its
  depth is half their distance. In the Web Audio class the LFO's output, between -1 and
  1, is scaled by \<^verbatim>\<open>lfoGain\<close> and added to the oscillator's frequency: its depth in Hz
  is the gain of \<^verbatim>\<open>lfoGain\<close>.
\<close>

definition tone_lfo_attached :: "VoiceNode \<Rightarrow> bool" where
  "tone_lfo_attached v = (lfo_connected_to_frequency (vn_lfo v) \<and> lfo_started (vn_lfo v))"

definition tone_lfo_rate :: "VoiceNode \<Rightarrow> real option" where
  "tone_lfo_rate v = map_option lfo_opt_frequency (lfo_options (vn_lfo v))"

definition tone_lfo_depth :: "VoiceNode \<Rightarrow> real option" where
  "tone_lfo_depth v = map_option (\<lambda>opts. (lfo_opt_max opts - lfo_opt_min opts) / 2) (lfo_options (vn_lfo v))"

definition wa_lfo_attached :: "WebAudio_voice \<Rightarrow> bool" where
  "wa_lfo_attached v =
     (wv_lfo v \<noteq> None \<and> (N_lfoGain, N_osc_frequency) \<in> set (wv_connections v))"

definition wa_lfo_rate :: "WebAudio_voice \<Rightarrow> real option" where
  "wa_lfo_rate v = map_option (\<lambda>l. osc_frequency_value (lfo_node l)) (wv_lfo v)"

definition wa_lfo_depth :: "WebAudio_voice \<Rightarrow> real option" where
  "wa_lfo_depth v = map_option (\<lambda>l. gain_value (lfoGain l)) (wv_lfo v)"

text \<open>
  The frequency automation of a voice. The Tone.js class only assigns
  \<^verbatim>\<open>synth.frequency.value\<close>, which sets the value at once, at the time of the call
  (the time its attack is triggered).
\<close>

definition tone_frequency_schedule :: "VoiceNode \<Rightarrow> param_event list" where
  "tone_frequency_schedule v =
     (case synth_triggerAttack (vn_synth v) of
        None \<Rightarrow> []
      | Some t \<Rightarrow> [SetValueAtTime (synth_frequency (vn_synth v)) t])"

definition wa_frequency_schedule :: "WebAudio_voice \<Rightarrow> param_event list" where
  "wa_frequency_schedule v = osc_frequency_events (wv_osc v)"

text \<open>
  The frequency automation as the specification words it: with a positive slide time, a
  linear ramp over \<open>slideTime\<close> seconds from the frequency of the highest active note, or
  from half the target when no note is active; otherwise the target, set at once.
\<close>

definition spec_slide_source :: "int list \<Rightarrow> real \<Rightarrow> real" where
  "spec_slide_source active target =
     (if active = [] then target / 2 else midiNoteToFrequency (Max (set active)))"

definition spec_frequency_schedule :: "int list \<Rightarrow> real \<Rightarrow> real \<Rightarrow> real \<Rightarrow> param_event list" where
  "spec_frequency_schedule active target slideTime now =
     (if slideTime > 0
      then [SetValueAtTime (spec_slide_source active target) now,
            LinearRampToValueAtTime target (now + slideTime)]
      else [SetValueAtTime target now])"

section \<open>Scenarios\<close>

text \<open>Each engine after \<^verbatim>\<open>noteOn(60)\<close> at time 0 on a new instance.\<close>

definition tone_after_noteOn_60 :: "ToneSynthesizer \<times> browser" where
  "tone_after_noteOn_60 = tone_noteOn 60 1 0 0 (tone_constructor, empty_browser)"

definition wa_after_noteOn_60 :: "WebAudioSynthesizer \<times> browser" where
  "wa_after_noteOn_60 = wa_noteOn 60 1 0 0 (wa_constructor, empty_browser)"

text \<open>
  The Web Audio engine after \<^verbatim>\<open>noteOn(60)\<close> and \<^verbatim>\<open>noteOff(60)\<close> (at time 1); then
  after \<^verbatim>\<open>noteOn(60)\<close> again (at time 2, inside the release window); then after the
  timeout registered by the first \<^verbatim>\<open>noteOff\<close> has fired.
\<close>

definition wa_after_noteOff_60 :: "WebAudioSynthesizer \<times> browser" where
  "wa_after_noteOff_60 = wa_noteOff 60 1 wa_after_noteOn_60"

definition wa_retriggered_60 :: "WebAudioSynthesizer \<times> browser" where
  "wa_retriggered_60 = wa_noteOn 60 1 0 2 wa_after_noteOff_60"

definition wa_stale_timeout_fired :: "WebAudioSynthesizer \<times> browser" where
  "wa_stale_timeout_fired =
     (wa_delete_callback 60 (fst wa_retriggered_60), clearTimeout 1 (snd wa_retriggered_60))"

text \<open>
  The Tone.js engine after \<^verbatim>\<open>noteOn(60)\<close> and \<^verbatim>\<open>stopAllNotes()\<close> (at time 1); then
  after \<^verbatim>\<open>noteOn(62)\<close> (at time 2); then after the timeout registered by
  \<^verbatim>\<open>stopAllNotes\<close> has fired.
\<close>

definition tone_after_stopAllNotes :: "ToneSynthesizer \<times> browser" where
  "tone_after_stopAllNotes = tone_stopAllNotes 1 tone_after_noteOn_60"

definition tone_noteOn_62_after_stop :: "ToneSynthesizer \<times> browser" where
  "tone_noteOn_62_after_stop = tone_noteOn 62 1 0 2 tone_after_stopAllNotes"

definition tone_stop_timeout_fired :: "ToneSynthesizer \<times> browser" where
  "tone_stop_timeout_fired =
     (tone_stopAll_callback (fst tone_noteOn_62_after_stop), clearTimeout 1 (snd tone_noteOn_62_after_stop))"

text \<open>A pattern: exactly 16 steps, none of them \<^verbatim>\<open>undefined\<close>.\<close>

definition is_pattern :: "SequencerNote option list \<Rightarrow> bool" where
  "is_pattern xs = (length xs = 16 \<and> None \<notin> set xs)"

text \<open>A step to set in the examples.\<close>

definition some_step :: SequencerNote where
  "some_step =
     \<lparr>step_note = 60, step_velocity = 1, step_duration = 1, step_slide = False, step_enabled = True\<rparr>"

text \<open>
  The component with note 60 at step 1 and tempo 120, the sequencer started: the
  initialisation (every draw of \<^verbatim>\<open>Math.random()\<close> being 0.5), the tempo set to 120,
  step 1 set, the steps effect, play toggled, the sequencer effect at time 0.
\<close>

definition draws_half :: "nat \<Rightarrow> real" where
  "draws_half k = 1 / 2"

definition preparing :: "app_event list" where
  "preparing =
     [Ev_init draws_half, Ev_tempoChange 120, Ev_stepChange 1 some_step, Ev_stepsEffect,
      Ev_togglePlay]"

definition prepared_App :: App where
  "prepared_App = the (app_run preparing initial_App)"

definition started_App :: App where
  "started_App = the (app_run (preparing @ [Ev_sequencerEffect 0]) initial_App)"

text \<open>Then the interval (timer 1) fires at time 1: note 60 plays.\<close>

definition playing_App :: App where
  "playing_App = the (app_run (preparing @ [Ev_sequencerEffect 0, Ev_timer 1 1]) initial_App)"

text \<open>
  What follows the stop in the example: timers 1 and 2 (by then cancelled) and 3 are
  asked to fire, a key is pressed and released, and the effects run.
\<close>

definition after_stop :: "app_event list" where
  "after_stop =
     [Ev_timer 1 3, Ev_timer 2 3, Ev_keyDown 69 4, Ev_timer 3 5, Ev_keyUp 69 6,
      Ev_paramsEffect, Ev_stepsEffect, Ev_sequencerEffect 7]"

text \<open>
  The component as React schedules it. Mounting runs the four effects in the order of
  their declaration (the sequencer effect, not running, calls \<^verbatim>\<open>stopAllAudio\<close>), and
  the render that follows the store's change runs the parameter and the steps effect
  again. The user then puts note 60 at index 1 (the steps effect follows), sets the tempo
  to 120 (the sequencer effect follows) and presses play (the sequencer effect follows and
  registers the interval, timer 3).
\<close>

definition mounting :: "app_event list" where
  "mounting =
     [Ev_init draws_half, Ev_paramsEffect, Ev_stepsEffect, Ev_sequencerEffect 0,
      Ev_paramsEffect, Ev_stepsEffect]"

definition starting :: "app_event list" where
  "starting =
     mounting @ [Ev_stepChange 1 some_step, Ev_stepsEffect, Ev_tempoChange 120, Ev_sequencerEffect 1,
                 Ev_togglePlay, Ev_sequencerEffect 2]"

definition running_App :: App where
  "running_App = the (app_run starting initial_App)"

lemma midiNoteToFrequency_pos: "0 < midiNoteToFrequency n"
  by (simp add: midiNoteToFrequency_def)

lemma frequencyToMidiNote_inverse: "frequencyToMidiNote (midiNoteToFrequency n) = n"
proof -
  have "Math_log2 (midiNoteToFrequency n / 440) = (real_of_int n - 69) / 12"
    by (simp add: Math_log2_def midiNoteToFrequency_def)
  then have "69 + 12 * Math_log2 (midiNoteToFrequency n / 440) = real_of_int n"
    by simp
  then show ?thesis
    by (simp add: frequencyToMidiNote_def Math_round_def)
qed

lemma Math_round_nearest:
  assumes "\<bar>x - real_of_int m\<bar> < 1 / 2"
  shows "Math_round x = m"
  using assms unfolding Math_round_def by linarith

lemma Math_round_tie: "Math_round (real_of_int m + 1 / 2) = m + 1"
  unfolding Math_round_def by linarith

lemma Math_round_int: "Math_round (real_of_int m) = m"
  unfolding Math_round_def by linarith

lemma pitch_of_frequency:
  assumes "0 < f"
  shows "69 + 12 * Math_log2 (f / 440) =
         real_of_int n + 12 * log 2 (f / midiNoteToFrequency n)"
proof -
  have pos: "0 < midiNoteToFrequency n" by (rule midiNoteToFrequency_pos)
  have "log 2 (f / midiNoteToFrequency n) = log 2 f - log 2 (midiNoteToFrequency n)"
    using assms pos by (simp add: log_divide)
  moreover have "log 2 (midiNoteToFrequency n) = log 2 440 + (real_of_int n - 69) / 12"
    by (simp add: midiNoteToFrequency_def log_mult)
  moreover have "log 2 (f / 440) = log 2 f - log 2 440"
    using assms by (simp add: log_divide)
  ultimately show ?thesis by (simp add: Math_log2_def field_simps)
qed

lemma log2_near_one:
  assumes "99 / 100 \<le> r" and "r \<le> 101 / 100"
  shows "\<bar>12 * log 2 r\<bar> < 1 / 2"
proof -
  have r: "0 < r" using assms by simp
  have "r ^ 24 \<le> (101 / 100) ^ 24" using assms r by (intro power_mono) simp_all
  also have "\<dots> < (2::real)" by (simp add: power_divide)
  finally have up: "r ^ 24 < 2" .
  have "(1 / 2 :: real) < (99 / 100) ^ 24" by (simp add: power_divide)
  also have "\<dots> \<le> r ^ 24" using assms by (intro power_mono) simp_all
  finally have lo: "1 / 2 < r ^ 24" .
  have l24: "log 2 (r ^ 24) = 24 * log 2 r" using r by (simp add: log_nat_power)
  have "log 2 (r ^ 24) < log 2 2" using up r by (subst log_less_cancel_iff) simp_all
  then have a: "24 * log 2 r < 1" using l24 by simp
  have "log 2 (1 / 2) < log 2 (r ^ 24)" using lo r by (subst log_less_cancel_iff) simp_all
  moreover have "log 2 (1 / 2) = - 1" by (simp add: log_divide)
  ultimately have b: "- 1 < 24 * log 2 r" using l24 by simp
  from a b show ?thesis by linarith
qed

lemma midiNoteToFrequency_mono: "m \<le> n \<Longrightarrow> midiNoteToFrequency m \<le> midiNoteToFrequency n"
  by (simp add: midiNoteToFrequency_def)

lemma midiNoteToFrequency_range:
  assumes "0 \<le> n" and "n \<le> 127"
  shows "6 < midiNoteToFrequency n" and "midiNoteToFrequency n < 14081"
proof -
  have "(2::real) powr (- 6) \<le> 2 powr ((real_of_int n - 69) / 12)"
    using assms by (intro powr_mono) simp_all
  moreover have "(2::real) powr (- 6) = 1 / 64" by (simp add: powr_minus_divide)
  ultimately show "6 < midiNoteToFrequency n" by (simp add: midiNoteToFrequency_def)
  have "(2::real) powr ((real_of_int n - 69) / 12) \<le> 2 powr 5"
    using assms by (intro powr_mono) simp_all
  moreover have "(2::real) powr 5 = 32" by simp
  ultimately show "midiNoteToFrequency n < 14081" by (simp add: midiNoteToFrequency_def)
qed

lemma frequencyToMidiNote_nearest:
  assumes "0 < g" and "\<bar>69 + 12 * Math_log2 (g / 440) - real_of_int m\<bar> < 1 / 2"
  shows "frequencyToMidiNote g = m"
  using assms(2) unfolding frequencyToMidiNote_def by (rule Math_round_nearest)

lemma frequencyToMidiNote_tolerant:
  assumes "\<bar>f - midiNoteToFrequency n\<bar> \<le> midiNoteToFrequency n / 100"
  shows "frequencyToMidiNote f = n"
proof -
  let ?F = "midiNoteToFrequency n"
  have pos: "0 < ?F" by (rule midiNoteToFrequency_pos)
  have "- (?F / 100) \<le> f - ?F" and "f - ?F \<le> ?F / 100"
    using assms by linarith+
  then have lo: "99 / 100 \<le> f / ?F" and hi: "f / ?F \<le> 101 / 100"
    using pos by (simp_all add: field_simps)
  have f: "0 < f" using lo pos by (simp add: field_simps) 
  have "\<bar>12 * log 2 (f / ?F)\<bar> < 1 / 2" by (rule log2_near_one [OF lo hi])
  then have "\<bar>69 + 12 * Math_log2 (f / 440) - real_of_int n\<bar> < 1 / 2"
    by (simp add: pitch_of_frequency [OF f, of n])
  then show ?thesis by (rule frequencyToMidiNote_nearest [OF f])
qed

text \<open>
  C9. \<^verbatim>\<open>midiNoteToFrequency(69)\<close> is 440. For a MIDI note \<open>n\<close> from 0 to 127 the frequency
  lies between 6 and 14081 Hz, and the round trip through \<^verbatim>\<open>frequencyToMidiNote\<close> gives
  back the note \<open>n\<close>, hence the very same frequency. \<^verbatim>\<open>frequencyToMidiNote\<close> rounds to the
  nearest integer note: a frequency \<open>g\<close> whose pitch \<^verbatim>\<open>69 + 12 * log2(g / 440)\<close> is less
  than half a semitone away from \<open>m\<close> is converted to \<open>m\<close>, and a pitch exactly half way
  between two notes goes up. The round trip tolerates rounding of the frequency: every
  \<open>f\<close> within one percent of \<^verbatim>\<open>midiNoteToFrequency(n)\<close> is converted back to \<open>n\<close>. The
  numbers are exact reals here; the two tolerances are what carries the law over to
  floating-point numbers, whose relative rounding error is far below them.
\<close>

theorem C9_midi_frequency_round_trip:
  assumes valid: "0 \<le> n" "n \<le> 127"
      and near: "\<bar>f - midiNoteToFrequency n\<bar> \<le> midiNoteToFrequency n / 100"
      and pitch: "0 < g" "\<bar>69 + 12 * Math_log2 (g / 440) - real_of_int m\<bar> < 1 / 2"
  shows "midiNoteToFrequency 69 = 440
   \<and> 6 < midiNoteToFrequency n \<and> midiNoteToFrequency n < 14081
   \<and> frequencyToMidiNote (midiNoteToFrequency n) = n
   \<and> midiNoteToFrequency (frequencyToMidiNote (midiNoteToFrequency n)) = midiNoteToFrequency n
   \<and> frequencyToMidiNote g = m
   \<and> Math_round (real_of_int m + 1 / 2) = m + 1
   \<and> frequencyToMidiNote f = n
   \<and> midiNoteToFrequency (frequencyToMidiNote f) = midiNoteToFrequency n"
proof -
  have "midiNoteToFrequency 69 = 440"
    by (simp add: midiNoteToFrequency_def)
  moreover have "frequencyToMidiNote (midiNoteToFrequency n) = n"
    by (rule frequencyToMidiNote_inverse)
  moreover have "frequencyToMidiNote g = m"
    by (rule frequencyToMidiNote_nearest [OF pitch])
  moreover have "frequencyToMidiNote f = n"
    by (rule frequencyToMidiNote_tolerant [OF near])
  ultimately show ?thesis
    using midiNoteToFrequency_range [OF valid] Math_round_tie [of m] by simp
qed

text \<open>
  The octave above A4 is note 81, and 439 Hz and 441 Hz both round to note 69, whose
  frequency is 440 Hz.
\<close>

theorem C9_midi_frequency_round_trip_witness:
  "frequencyToMidiNote 880 = 81
   \<and> frequencyToMidiNote 439 = 69 \<and> midiNoteToFrequency (frequencyToMidiNote 439) = 440
   \<and> frequencyToMidiNote 441 = 69"
proof -
  have f69: "midiNoteToFrequency 69 = 440" by (simp add: midiNoteToFrequency_def)
  have g: "\<bar>69 + 12 * Math_log2 (880 / 440) - real_of_int 81\<bar> < 1 / 2"
    by (simp add: Math_log2_def)
  have n1: "\<bar>439 - midiNoteToFrequency 69\<bar> \<le> midiNoteToFrequency 69 / 100"
    by (simp add: f69)
  have n2: "\<bar>441 - midiNoteToFrequency 69\<bar> \<le> midiNoteToFrequency 69 / 100"
    by (simp add: f69)
  note r1 = C9_midi_frequency_round_trip [of 69 439 880 81, OF _ _ n1 _ g]
  note r2 = C9_midi_frequency_round_trip [of 69 441 880 81, OF _ _ n2 _ g]
  have a: "frequencyToMidiNote 880 = 81" using r1 by simp
  have b: "frequencyToMidiNote 439 = 69" using r1 by simp
  have c: "frequencyToMidiNote 441 = 69" using r2 by simp
  show ?thesis by (simp add: a b c f69)
qed

section \<open>Lemmas on the two engines\<close>

lemma midiNoteToFrequency_57: "midiNoteToFrequency 57 = 220"
  by (simp add: midiNoteToFrequency_def powr_minus)

lemma midiNoteToFrequency_69: "midiNoteToFrequency 69 = 440"
  by (simp add: midiNoteToFrequency_def)

lemma length_heap_modify [simp]: "length (heap_modify a f h) = length h"
  by (simp add: heap_modify_def)

lemma nth_heap_modify:
  "heap_modify a f h ! i = (if i = a \<and> a < length h then f (h ! a) else h ! i)"
  by (simp add: heap_modify_def)

lemma count_list_removeAll [simp]: "count_list (removeAll x xs) x = 0"
  by (induction xs) auto

lemma count_list_Set_add_delete: "count_list (Set_add x (Set_delete x xs)) x = 1"
  by (simp add: Set_add_def Set_delete_def)

lemma count_list_Set_add_distinct: "distinct xs \<Longrightarrow> count_list (Set_add x xs) x = 1"
  by (induction xs) (auto simp: Set_add_def split: if_splits)

lemma count_keys_update_delete:
  "count_list (map fst (AList.update k v (AList.delete k al))) k = 1"
  by (simp add: update_keys delete_keys)

lemma count_keys_update_distinct:
  "distinct (map fst al) \<Longrightarrow> count_list (map fst (AList.update k v al)) k = 1"
proof (induction al)
  case Nil
  then show ?case by simp
next
  case (Cons a al)
  then show ?case
    by (cases a) (auto simp: update_keys count_list_0_iff image_iff)
qed

lemma wv_osc_simps [simp]:
  "wv_osc (wa_stop_lfo t v) = wv_osc v"
  "wv_osc (wa_release_gain now rel v) = wv_osc v"
  "osc_stop (wv_osc (wa_stop_osc t v)) = Some t"
  by (simp_all add: wa_stop_lfo_def wa_release_gain_def wa_stop_osc_def)

lemma wa_noteOff_params: "wa_params (fst (wa_noteOff n now (s, b))) = wa_params s"
  by (simp add: Let_def split: option.splits prod.splits)

lemma wa_noteOff_activeNotes: "wa_activeNotes (fst (wa_noteOff n now (s, b))) = wa_activeNotes s"
  by (simp add: Let_def split: option.splits prod.splits)

lemma wa_noteOn_activeNotes:
  "wa_activeNotes (fst (wa_noteOn n vel sl now (s, b))) = Set_add n (wa_activeNotes s)"
proof -
  obtain s1 b1 where off: "wa_noteOff n now (s, b) = (s1, b1)"
    by (cases "wa_noteOff n now (s, b)")
  have a: "wa_activeNotes s1 = wa_activeNotes s"
    using wa_noteOff_activeNotes [of n now s b] off by simp
  show ?thesis
    by (simp add: wa_build_voice_def Let_def off a del: wa_noteOff.simps)
qed

lemma wa_created_voice_eq:
  "wa_created_voice (wa_noteOn n vel sl now (s, b)) =
     wa_new_voice (wa_params s) (wa_activeNotes s) (midiNoteToFrequency n) vel sl now"
proof -
  obtain s1 b1 where off: "wa_noteOff n now (s, b) = (s1, b1)"
    by (cases "wa_noteOff n now (s, b)")
  have p: "wa_params s1 = wa_params s" and a: "wa_activeNotes s1 = wa_activeNotes s"
    using wa_noteOff_params [of n now s b] wa_noteOff_activeNotes [of n now s b] off by simp_all
  show ?thesis
    by (simp add: wa_created_voice_def wa_build_voice_def Let_def off p a del: wa_noteOff.simps)
qed

lemma tone_noteOff_params: "tone_params (fst (tone_noteOff n now (s, b))) = tone_params s"
  by (simp add: Let_def split: option.splits prod.splits)

lemma tone_created_voice_eq:
  "tone_created_voice (tone_noteOn n vel sl now (s, b)) =
     tone_new_voice (tone_params s) (midiNoteToFrequency n) now"
proof -
  obtain s1 b1 where off: "tone_noteOff n now (s, b) = (s1, b1)"
    by (cases "tone_noteOff n now (s, b)")
  have p: "tone_params s1 = tone_params s"
    using tone_noteOff_params [of n now s b] off by simp
  show ?thesis
    by (simp add: tone_created_voice_def tone_build_voice_def Let_def off p del: tone_noteOff.simps)
qed

lemma tone_noteOn_ignores_velocity_and_slide:
  "tone_noteOn n vel sl now (s, b) = tone_noteOn n vel' sl' now (s, b)"
  by (simp add: tone_build_voice_def)

text \<open>
  Re-triggering in the Tone.js class: the note has the registered voice \<open>v\<close>.
\<close>

lemma tone_retrigger:
  assumes "Set_has (tone_activeNotes s) n"
      and "map_of (tone_voices s) n = Some v"
      and "v < length (tone_heap s)"
  shows "tone_noteOn n vel sl now (s, b) =
           (tone_build_voice n vel sl now (fst (tone_noteOff n now (s, b))),
            snd (tone_noteOff n now (s, b)))"
    and "map_of (tone_voices (fst (tone_noteOn n vel sl now (s, b)))) n = Some (length (tone_heap s))"
    and "count_list (map fst (tone_voices (fst (tone_noteOn n vel sl now (s, b))))) n = 1"
    and "count_list (tone_activeNotes (fst (tone_noteOn n vel sl now (s, b)))) n = 1"
    and "length (tone_heap (fst (tone_noteOn n vel sl now (s, b)))) = Suc (length (tone_heap s))"
    and "synth_triggerRelease (vn_synth (tone_heap (fst (tone_noteOn n vel sl now (s, b))) ! v)) = Some now"
    and "\<not> tone_released (tone_heap (fst (tone_noteOn n vel sl now (s, b))) ! length (tone_heap s))"
    and "timers (snd (tone_noteOn n vel sl now (s, b))) =
           timers b @ [\<lparr>timer_id = next_timer_id b, timer_delay = release (tone_params s) * 1000 + 100,
                        timer_repeats = False, timer_callback = ToneDisposeVoice v\<rparr>]"
  using assms
  by (simp_all add: Let_def tone_build_voice_def setTimeout_def new_timer_def nth_heap_modify
      update_conv' count_keys_update_delete count_list_Set_add_delete nth_append
      tone_release_voice_def tone_released_def tone_new_voice_def split: prod.splits)

text \<open>
  Re-triggering in the Web Audio class: the note has the registered voice \<open>v\<close>; a set
  and a map hold each member and each key once.
\<close>

lemma wa_retrigger:
  assumes "Set_has (wa_activeNotes s) n"
      and "map_of (wa_gains s) n = Some v"
      and "map_of (wa_oscillators s) n = Some v"
      and "v < length (wa_heap s)"
      and "distinct (wa_activeNotes s)"
      and "distinct (map fst (wa_oscillators s))"
  shows "wa_noteOn n vel sl now (s, b) =
           (wa_build_voice n vel sl now (fst (wa_noteOff n now (s, b))),
            snd (wa_noteOff n now (s, b)))"
    and "map_of (wa_oscillators (fst (wa_noteOn n vel sl now (s, b)))) n = Some (length (wa_heap s))"
    and "map_of (wa_gains (fst (wa_noteOn n vel sl now (s, b)))) n = Some (length (wa_heap s))"
    and "map_of (wa_filters (fst (wa_noteOn n vel sl now (s, b)))) n = Some (length (wa_heap s))"
    and "count_list (map fst (wa_oscillators (fst (wa_noteOn n vel sl now (s, b))))) n = 1"
    and "count_list (wa_activeNotes (fst (wa_noteOn n vel sl now (s, b)))) n = 1"
    and "length (wa_heap (fst (wa_noteOn n vel sl now (s, b)))) = Suc (length (wa_heap s))"
    and "osc_stop (wv_osc (wa_heap (fst (wa_noteOn n vel sl now (s, b))) ! v)) =
           Some (now + release (wa_params s))"
    and "\<not> wa_released (wa_heap (fst (wa_noteOn n vel sl now (s, b))) ! length (wa_heap s))"
    and "timers (snd (wa_noteOn n vel sl now (s, b))) =
           timers b @ [\<lparr>timer_id = next_timer_id b, timer_delay = release (wa_params s) * 1000 + 100,
                        timer_repeats = False, timer_callback = WebAudioDeleteNote n\<rparr>]"
  using assms
  by (simp_all add: Let_def wa_build_voice_def setTimeout_def new_timer_def nth_heap_modify
      update_conv' count_keys_update_distinct count_list_Set_add_distinct nth_append
      wa_released_def wa_new_voice_def createOscillator_def
      split: prod.splits option.splits)

section \<open>Claims on the voice manager\<close>

text \<open>
  C10. In \<^verbatim>\<open>WebAudioSynthesizer.noteOn\<close> the \<^verbatim>\<open>connect\<close> calls of the created voice
  connect the oscillator to the filter twice when ring modulation is disabled (the
  amount is not strictly between 0 and 1) and once when it is enabled.
\<close>

theorem C10_oscillator_filter_connections:
  "osc_filter_connections (wa_created_voice (wa_noteOn n vel sl now (s, b))) =
     (if 0 < ringModAmount (wa_params s) \<and> ringModAmount (wa_params s) < 1 then 1 else 2)"
  unfolding wa_created_voice_eq
  by (simp add: osc_filter_connections_def wa_new_voice_def Let_def ringMod_enabled_def)

theorem C10_oscillator_filter_connections_witness:
  "osc_filter_connections
     (wa_created_voice (wa_noteOn 60 1 0 0 (wa_constructor, empty_browser))) = 2
   \<and> osc_filter_connections
     (wa_created_voice (wa_noteOn 60 1 0 0
        (wa_updateParams (no_params\<lparr>new_ringModAmount := Some 0.6\<rparr>) wa_constructor, empty_browser))) = 1"
  using C10_oscillator_filter_connections [of 60 1 0 0 wa_constructor empty_browser]
        C10_oscillator_filter_connections [of 60 1 0 0
          "wa_updateParams (no_params\<lparr>new_ringModAmount := Some 0.6\<rparr>) wa_constructor" empty_browser]
  by (simp add: wa_constructor_def constructor_params_def wa_updateParams_def merge_params_def no_params_def)

text \<open>
  C7, as amended. In both classes the LFO of a created voice is attached exactly when
  \<^verbatim>\<open>lfoAmount > 0\<close>, and it then runs at \<^verbatim>\<open>lfoRate\<close> Hz. In the Tone.js class it
  sweeps from 0.95 to 1.05 times the target frequency, a depth of 5% of the target
  whatever the amount. In the Web Audio class its depth is \<^verbatim>\<open>lfoAmount * 100\<close> Hz: it
  grows with the amount and does not depend on the target frequency.
\<close>

theorem C7_lfo_gate_and_depth:
  "(let v = tone_created_voice (tone_noteOn n vel sl now (s, b));
        target = midiNoteToFrequency n; p = tone_params s
    in tone_lfo_attached v = (lfoAmount p > 0)
       \<and> tone_lfo_rate v = (if lfoAmount p > 0 then Some (lfoRate p) else None)
       \<and> tone_lfo_depth v = (if lfoAmount p > 0 then Some (0.05 * target) else None)
       \<and> lfo_options (vn_lfo v) =
           (if lfoAmount p > 0
            then Some \<lparr>lfo_opt_frequency = lfoRate p, lfo_opt_min = target * 0.95,
                       lfo_opt_max = target * 1.05\<rparr>
            else None))
   \<and> (let v = wa_created_voice (wa_noteOn n vel sl now (w, b')); p = wa_params w
      in wa_lfo_attached v = (lfoAmount p > 0)
         \<and> wa_lfo_rate v = (if lfoAmount p > 0 then Some (lfoRate p) else None)
         \<and> wa_lfo_depth v = (if lfoAmount p > 0 then Some (lfoAmount p * 100) else None))"
  unfolding wa_created_voice_eq tone_created_voice_eq
  by (simp add: Let_def tone_new_voice_def wa_new_voice_def tone_lfo_attached_def tone_lfo_rate_def
      tone_lfo_depth_def wa_lfo_attached_def wa_lfo_rate_def wa_lfo_depth_def default_Tone_LFO_def
      createOscillator_def createGain_def)

theorem C7_lfo_gate_and_depth_witness:
  "tone_lfo_depth (tone_created_voice (tone_noteOn 69 1 0 0
       (tone_updateParams (no_params\<lparr>new_lfoAmount := Some 0.5\<rparr>) tone_constructor, empty_browser))) = Some 22
   \<and> tone_lfo_depth (tone_created_voice (tone_noteOn 69 1 0 0
       (tone_updateParams (no_params\<lparr>new_lfoAmount := Some 0.25\<rparr>) tone_constructor, empty_browser))) = Some 22
   \<and> \<not> tone_lfo_attached (tone_created_voice (tone_noteOn 69 1 0 0 (tone_constructor, empty_browser)))
   \<and> wa_lfo_depth (wa_created_voice (wa_noteOn 69 1 0 0
       (wa_updateParams (no_params\<lparr>new_lfoAmount := Some 0.5\<rparr>) wa_constructor, empty_browser))) = Some 50
   \<and> \<not> wa_lfo_attached (wa_created_voice (wa_noteOn 69 1 0 0 (wa_constructor, empty_browser)))"
  using C7_lfo_gate_and_depth [of 69 1 0 0
          "tone_updateParams (no_params\<lparr>new_lfoAmount := Some 0.5\<rparr>) tone_constructor" empty_browser
          "wa_updateParams (no_params\<lparr>new_lfoAmount := Some 0.5\<rparr>) wa_constructor" empty_browser]
        C7_lfo_gate_and_depth [of 69 1 0 0
          "tone_updateParams (no_params\<lparr>new_lfoAmount := Some 0.25\<rparr>) tone_constructor" empty_browser
          wa_constructor empty_browser]
        C7_lfo_gate_and_depth [of 69 1 0 0 tone_constructor empty_browser wa_constructor empty_browser]
  by (simp add: Let_def wa_updateParams_def tone_updateParams_def merge_params_def
      no_params_def wa_constructor_def tone_constructor_def constructor_params_def midiNoteToFrequency_def)

text \<open>
  C7 as stated fails in the Web Audio class: with \<^verbatim>\<open>lfoAmount\<close> 0.5 the voice for note
  69 (440 Hz) has an LFO depth of 50 Hz, not 5% of 440 Hz, and with \<^verbatim>\<open>lfoAmount\<close> 0.25 a
  depth of 25 Hz: the amount scales the depth.
\<close>

theorem C7_webaudio_depth_counterexample:
  "wa_lfo_depth (wa_created_voice (wa_noteOn 69 1 0 0
       (wa_updateParams (no_params\<lparr>new_lfoAmount := Some 0.5\<rparr>) wa_constructor, empty_browser))) = Some 50
   \<and> wa_lfo_depth (wa_created_voice (wa_noteOn 69 1 0 0
       (wa_updateParams (no_params\<lparr>new_lfoAmount := Some 0.5\<rparr>) wa_constructor, empty_browser)))
       \<noteq> Some (0.05 * midiNoteToFrequency 69)
   \<and> wa_lfo_depth (wa_created_voice (wa_noteOn 69 1 0 0
       (wa_updateParams (no_params\<lparr>new_lfoAmount := Some 0.25\<rparr>) wa_constructor, empty_browser))) = Some 25"
  unfolding wa_created_voice_eq
  by (simp add: wa_new_voice_def wa_lfo_depth_def Let_def wa_updateParams_def merge_params_def
      no_params_def wa_constructor_def constructor_params_def createGain_def midiNoteToFrequency_def)

text \<open>
  C6, as amended. In the Web Audio class the oscillator frequency of the created voice
  follows the schedule of the specification, the active notes being those of the set
  \<^verbatim>\<open>activeNotes\<close> when \<^verbatim>\<open>noteOn\<close> is called (a note stays in that set until the
  timeout of its \<^verbatim>\<open>noteOff\<close> has fired); with a slide time that is not positive the
  target is set at once. In the Tone.js class \<^verbatim>\<open>noteOn\<close> does not use its slide time:
  the target frequency is set at once for every slide time, and the call does what the
  call with slide time 0 does.
\<close>

theorem C6_frequency_schedule:
  "wa_frequency_schedule (wa_created_voice (wa_noteOn n vel slideTime now (w, b'))) =
     spec_frequency_schedule (wa_activeNotes w) (midiNoteToFrequency n) slideTime now
   \<and> tone_frequency_schedule (tone_created_voice (tone_noteOn n vel slideTime now (s, b))) =
     [SetValueAtTime (midiNoteToFrequency n) now]
   \<and> tone_noteOn n vel slideTime now (s, b) = tone_noteOn n vel 0 now (s, b)"
proof -
  have "wa_frequency_schedule (wa_created_voice (wa_noteOn n vel slideTime now (w, b'))) =
     spec_frequency_schedule (wa_activeNotes w) (midiNoteToFrequency n) slideTime now"
    unfolding wa_created_voice_eq
    by (simp add: wa_frequency_schedule_def wa_new_voice_def Let_def wa_frequency_events_def
        spec_frequency_schedule_def spec_slide_source_def createOscillator_def)
  moreover have "tone_frequency_schedule (tone_created_voice (tone_noteOn n vel slideTime now (s, b))) =
     [SetValueAtTime (midiNoteToFrequency n) now]"
    unfolding tone_created_voice_eq
    by (simp add: tone_frequency_schedule_def tone_new_voice_def)
  moreover have "tone_noteOn n vel slideTime now (s, b) = tone_noteOn n vel 0 now (s, b)"
    by (rule tone_noteOn_ignores_velocity_and_slide)
  ultimately show ?thesis by blast
qed

theorem C6_frequency_schedule_witness:
  "wa_frequency_schedule (wa_created_voice
      (wa_noteOn 69 1 0.3 1 (wa_noteOn 57 1 0 0 (wa_constructor, empty_browser))))
     = [SetValueAtTime 220 1, LinearRampToValueAtTime 440 1.3]
   \<and> wa_frequency_schedule (wa_created_voice (wa_noteOn 69 1 0.3 1 (wa_constructor, empty_browser)))
     = [SetValueAtTime 220 1, LinearRampToValueAtTime 440 1.3]
   \<and> wa_frequency_schedule (wa_created_voice (wa_noteOn 69 1 0 1 (wa_constructor, empty_browser)))
     = [SetValueAtTime 440 1]
   \<and> tone_frequency_schedule (tone_created_voice (tone_noteOn 69 1 0.3 1 (tone_constructor, empty_browser)))
     = [SetValueAtTime 440 1]"
proof -
  have act: "wa_activeNotes (fst (wa_noteOn 57 1 0 0 (wa_constructor, empty_browser))) = [57]"
    unfolding wa_noteOn_activeNotes by (simp add: wa_constructor_def Set_add_def)
  have e: "wa_activeNotes wa_constructor = []"
    by (simp add: wa_constructor_def)
  show ?thesis
    using C6_frequency_schedule [of 69 1 "0.3" 1 "fst (wa_noteOn 57 1 0 0 (wa_constructor, empty_browser))"
            "snd (wa_noteOn 57 1 0 0 (wa_constructor, empty_browser))" tone_constructor empty_browser]
          C6_frequency_schedule [of 69 1 "0.3" 1 wa_constructor empty_browser tone_constructor empty_browser]
          C6_frequency_schedule [of 69 1 0 1 wa_constructor empty_browser tone_constructor empty_browser]
    by (simp add: act e spec_frequency_schedule_def spec_slide_source_def
        midiNoteToFrequency_69 midiNoteToFrequency_57 del: wa_noteOn.simps tone_noteOn.simps)
qed

text \<open>
  C6 as stated fails in the Tone.js class: with note 57 (220 Hz) active,
  \<^verbatim>\<open>noteOn(69, 1, 0.3)\<close> sets 440 Hz at once, where the specification's schedule is a
  ramp from 220 Hz to 440 Hz over 0.3 s.
\<close>

theorem C6_tone_no_slide_counterexample:
  "tone_activeNotes (fst (tone_noteOn 57 1 0 0 (tone_constructor, empty_browser))) = [57]
   \<and> tone_frequency_schedule (tone_created_voice
        (tone_noteOn 69 1 0.3 1 (tone_noteOn 57 1 0 0 (tone_constructor, empty_browser))))
       = [SetValueAtTime 440 1]
   \<and> spec_frequency_schedule [57] (midiNoteToFrequency 69) 0.3 1
       = [SetValueAtTime 220 1, LinearRampToValueAtTime 440 1.3]"
proof -
  have a: "tone_activeNotes (fst (tone_noteOn 57 1 0 0 (tone_constructor, empty_browser))) = [57]"
    by (simp add: tone_build_voice_def tone_constructor_def Set_has_def Set_add_def)
  have b: "tone_frequency_schedule (tone_created_voice
        (tone_noteOn 69 1 0.3 1 (tone_noteOn 57 1 0 0 (tone_constructor, empty_browser))))
       = [SetValueAtTime 440 1]"
    using tone_created_voice_eq [of 69 1 "0.3" 1 "fst (tone_noteOn 57 1 0 0 (tone_constructor, empty_browser))"
        "snd (tone_noteOn 57 1 0 0 (tone_constructor, empty_browser))"]
    by (simp add: tone_frequency_schedule_def tone_new_voice_def midiNoteToFrequency_69
        del: tone_noteOn.simps)
  have c: "spec_frequency_schedule [57] (midiNoteToFrequency 69) 0.3 1
       = [SetValueAtTime 220 1, LinearRampToValueAtTime 440 1.3]"
    by (simp add: spec_frequency_schedule_def spec_slide_source_def
        midiNoteToFrequency_69 midiNoteToFrequency_57)
  from a b c show ?thesis by blast
qed

text \<open>
  C1. When \<^verbatim>\<open>noteOn(n)\<close> is called while note \<open>n\<close> is active and has a registered
  voice, the call is the \<^verbatim>\<open>noteOff\<close> path for \<open>n\<close> followed by the construction of
  a new voice. Afterwards the note is bound to the new voice, which is the one object
  added to the heap and is not released; the voice it was bound to has been released;
  the note is once among the keys of the map and once in the set of active notes. This
  holds in both classes.
\<close>

theorem C1_retrigger_releases_then_builds:
  assumes "Set_has (tone_activeNotes s) n"
      and "map_of (tone_voices s) n = Some v"
      and "v < length (tone_heap s)"
      and "Set_has (wa_activeNotes w) n"
      and "map_of (wa_gains w) n = Some u"
      and "map_of (wa_oscillators w) n = Some u"
      and "u < length (wa_heap w)"
      and "distinct (wa_activeNotes w)"
      and "distinct (map fst (wa_oscillators w))"
  shows "(tone_noteOn n vel sl now (s, b) =
            (tone_build_voice n vel sl now (fst (tone_noteOff n now (s, b))),
             snd (tone_noteOff n now (s, b)))
          \<and> map_of (tone_voices (fst (tone_noteOn n vel sl now (s, b)))) n = Some (length (tone_heap s))
          \<and> count_list (map fst (tone_voices (fst (tone_noteOn n vel sl now (s, b))))) n = 1
          \<and> count_list (tone_activeNotes (fst (tone_noteOn n vel sl now (s, b)))) n = 1
          \<and> length (tone_heap (fst (tone_noteOn n vel sl now (s, b)))) = Suc (length (tone_heap s))
          \<and> tone_released (tone_heap (fst (tone_noteOn n vel sl now (s, b))) ! v)
          \<and> \<not> tone_released (tone_heap (fst (tone_noteOn n vel sl now (s, b))) ! length (tone_heap s)))
       \<and> (wa_noteOn n vel sl now (w, b') =
            (wa_build_voice n vel sl now (fst (wa_noteOff n now (w, b'))),
             snd (wa_noteOff n now (w, b')))
          \<and> map_of (wa_oscillators (fst (wa_noteOn n vel sl now (w, b')))) n = Some (length (wa_heap w))
          \<and> map_of (wa_gains (fst (wa_noteOn n vel sl now (w, b')))) n = Some (length (wa_heap w))
          \<and> map_of (wa_filters (fst (wa_noteOn n vel sl now (w, b')))) n = Some (length (wa_heap w))
          \<and> count_list (map fst (wa_oscillators (fst (wa_noteOn n vel sl now (w, b'))))) n = 1
          \<and> count_list (wa_activeNotes (fst (wa_noteOn n vel sl now (w, b')))) n = 1
          \<and> length (wa_heap (fst (wa_noteOn n vel sl now (w, b')))) = Suc (length (wa_heap w))
          \<and> wa_released (wa_heap (fst (wa_noteOn n vel sl now (w, b'))) ! u)
          \<and> \<not> wa_released (wa_heap (fst (wa_noteOn n vel sl now (w, b'))) ! length (wa_heap w)))"
proof -
  note t = tone_retrigger [OF assms(1-3), of vel sl now b]
  note a = wa_retrigger [OF assms(4-9), of vel sl now b']
  have tr: "tone_released (tone_heap (fst (tone_noteOn n vel sl now (s, b))) ! v)"
    using t(6) by (simp add: tone_released_def del: tone_noteOn.simps)
  have ar: "wa_released (wa_heap (fst (wa_noteOn n vel sl now (w, b'))) ! u)"
    using a(8) by (simp add: wa_released_def del: wa_noteOn.simps)
  from t(1-5) t(7) tr a(1-7) a(9) ar show ?thesis
    by blast
qed

lemma tone_after_noteOn_60_eq:
  "tone_after_noteOn_60 =
     (\<lparr>tone_heap = [tone_new_voice constructor_params (midiNoteToFrequency 60) 0],
       tone_voices = [(60, 0)], tone_params = constructor_params, tone_activeNotes = [60]\<rparr>,
      empty_browser)"
  by (simp add: tone_after_noteOn_60_def tone_constructor_def tone_build_voice_def Set_has_def Set_add_def)

lemma wa_after_noteOn_60_eq:
  "wa_after_noteOn_60 =
     (\<lparr>wa_heap = [wa_new_voice constructor_params [] (midiNoteToFrequency 60) 1 0 0],
       wa_oscillators = [(60, 0)], wa_gains = [(60, 0)], wa_filters = [(60, 0)], wa_lfos = [],
       wa_ringModOscillators = [], wa_ringModGains = [], wa_masterGain = 1,
       wa_params = constructor_params, wa_activeNotes = [60]\<rparr>,
      empty_browser)"
  by (simp add: wa_after_noteOn_60_def wa_constructor_def wa_build_voice_def Set_has_def Set_add_def
      Let_def wa_new_voice_def constructor_params_def ringMod_enabled_def)

text \<open>The instance of C1 for \<^verbatim>\<open>noteOn(60)\<close> followed by \<^verbatim>\<open>noteOn(60)\<close>.\<close>

theorem C1_retrigger_witness:
  "map_of (tone_voices (fst (tone_noteOn 60 1 0 1 tone_after_noteOn_60))) 60 = Some 1
   \<and> count_list (tone_activeNotes (fst (tone_noteOn 60 1 0 1 tone_after_noteOn_60))) 60 = 1
   \<and> length (tone_heap (fst (tone_noteOn 60 1 0 1 tone_after_noteOn_60))) = 2
   \<and> tone_released (tone_heap (fst (tone_noteOn 60 1 0 1 tone_after_noteOn_60)) ! 0)
   \<and> \<not> tone_released (tone_heap (fst (tone_noteOn 60 1 0 1 tone_after_noteOn_60)) ! 1)
   \<and> map_of (wa_oscillators (fst (wa_noteOn 60 1 0 1 wa_after_noteOn_60))) 60 = Some 1
   \<and> count_list (wa_activeNotes (fst (wa_noteOn 60 1 0 1 wa_after_noteOn_60))) 60 = 1
   \<and> length (wa_heap (fst (wa_noteOn 60 1 0 1 wa_after_noteOn_60))) = 2
   \<and> wa_released (wa_heap (fst (wa_noteOn 60 1 0 1 wa_after_noteOn_60)) ! 0)
   \<and> \<not> wa_released (wa_heap (fst (wa_noteOn 60 1 0 1 wa_after_noteOn_60)) ! 1)"
proof -
  let ?s = "fst tone_after_noteOn_60" and ?b = "snd tone_after_noteOn_60"
  let ?w = "fst wa_after_noteOn_60" and ?b' = "snd wa_after_noteOn_60"
  have h1: "Set_has (tone_activeNotes ?s) 60" and h2: "map_of (tone_voices ?s) 60 = Some 0"
    and h3: "0 < length (tone_heap ?s)"
    by (simp_all add: tone_after_noteOn_60_eq Set_has_def)
  have h4: "Set_has (wa_activeNotes ?w) 60" and h5: "map_of (wa_gains ?w) 60 = Some 0"
    and h6: "map_of (wa_oscillators ?w) 60 = Some 0" and h7: "0 < length (wa_heap ?w)"
    and h8: "distinct (wa_activeNotes ?w)" and h9: "distinct (map fst (wa_oscillators ?w))"
    by (simp_all add: wa_after_noteOn_60_eq Set_has_def)
  have l1: "length (tone_heap ?s) = 1" and l2: "length (wa_heap ?w) = 1"
    by (simp_all add: tone_after_noteOn_60_eq wa_after_noteOn_60_eq)
  have "map_of (tone_voices (fst (tone_noteOn 60 1 0 1 (?s, ?b)))) 60 = Some (length (tone_heap ?s))
     \<and> count_list (tone_activeNotes (fst (tone_noteOn 60 1 0 1 (?s, ?b)))) 60 = 1
     \<and> length (tone_heap (fst (tone_noteOn 60 1 0 1 (?s, ?b)))) = Suc (length (tone_heap ?s))
     \<and> tone_released (tone_heap (fst (tone_noteOn 60 1 0 1 (?s, ?b))) ! 0)
     \<and> \<not> tone_released (tone_heap (fst (tone_noteOn 60 1 0 1 (?s, ?b))) ! length (tone_heap ?s))
     \<and> map_of (wa_oscillators (fst (wa_noteOn 60 1 0 1 (?w, ?b')))) 60 = Some (length (wa_heap ?w))
     \<and> count_list (wa_activeNotes (fst (wa_noteOn 60 1 0 1 (?w, ?b')))) 60 = 1
     \<and> length (wa_heap (fst (wa_noteOn 60 1 0 1 (?w, ?b')))) = Suc (length (wa_heap ?w))
     \<and> wa_released (wa_heap (fst (wa_noteOn 60 1 0 1 (?w, ?b'))) ! 0)
     \<and> \<not> wa_released (wa_heap (fst (wa_noteOn 60 1 0 1 (?w, ?b'))) ! length (wa_heap ?w))"
    using C1_retrigger_releases_then_builds [OF h1 h2 h3 h4 h5 h6 h7 h8 h9, of 1 0 1 ?b ?b']
    by blast
  then show ?thesis
    by (simp add: l1 l2 del: tone_noteOn.simps wa_noteOn.simps)
qed

text \<open>
  What \<^verbatim>\<open>noteOff\<close> does in the Tone.js class, for a note with a registered voice: the
  note has left the set and the map when the call returns, and one timeout is registered,
  with delay \<^verbatim>\<open>release * 1000 + 100\<close>, that disposes the voice.
\<close>

lemma tone_noteOff_removes_synchronously:
  assumes "map_of (tone_voices s) n = Some v"
  shows "\<not> Set_has (tone_activeNotes (fst (tone_noteOff n now (s, b)))) n
         \<and> map_of (tone_voices (fst (tone_noteOff n now (s, b)))) n = None
         \<and> timers (snd (tone_noteOff n now (s, b))) =
             timers b @ [\<lparr>timer_id = next_timer_id b,
                          timer_delay = release (tone_params s) * 1000 + 100,
                          timer_repeats = False, timer_callback = ToneDisposeVoice v\<rparr>]"
  using assms
  by (simp add: Set_has_def Set_delete_def delete_conv' setTimeout_def new_timer_def)

lemma wa_after_noteOff_60_maps:
  "wa_activeNotes (fst wa_after_noteOff_60) = [60]"
  "wa_oscillators (fst wa_after_noteOff_60) = [(60, 0)]"
  "wa_gains (fst wa_after_noteOff_60) = [(60, 0)]"
  "wa_filters (fst wa_after_noteOff_60) = [(60, 0)]"
  "wa_lfos (fst wa_after_noteOff_60) = []"
  "wa_params (fst wa_after_noteOff_60) = constructor_params"
  "length (wa_heap (fst wa_after_noteOff_60)) = 1"
  "wa_released (wa_heap (fst wa_after_noteOff_60) ! 0)"
  "snd wa_after_noteOff_60 =
     \<lparr>timers = [\<lparr>timer_id = 1, timer_delay = 400, timer_repeats = False,
                  timer_callback = WebAudioDeleteNote 60\<rparr>], next_timer_id = 2\<rparr>"
  by (simp_all add: wa_after_noteOff_60_def wa_after_noteOn_60_eq Let_def setTimeout_def new_timer_def
      empty_browser_def constructor_params_def nth_heap_modify wa_released_def)

lemma wa_retriggered_60_maps:
  "wa_activeNotes (fst wa_retriggered_60) = [60]"
  "wa_oscillators (fst wa_retriggered_60) = [(60, 1)]"
  "wa_gains (fst wa_retriggered_60) = [(60, 1)]"
  "wa_filters (fst wa_retriggered_60) = [(60, 1)]"
  "length (wa_heap (fst wa_retriggered_60)) = 2"
  "\<not> wa_released (wa_heap (fst wa_retriggered_60) ! 1)"
  "map timer_callback (timers (snd wa_retriggered_60)) = [WebAudioDeleteNote 60, WebAudioDeleteNote 60]"
  "map timer_id (timers (snd wa_retriggered_60)) = [1, 2]"
  "wa_lfos (fst wa_retriggered_60) = []"
proof -
  obtain w b where wb: "wa_after_noteOff_60 = (w, b)"
    by (cases wa_after_noteOff_60)
  note m = wa_after_noteOff_60_maps [unfolded wb, simplified]
  have h: "Set_has (wa_activeNotes w) 60" "map_of (wa_gains w) 60 = Some 0"
      "map_of (wa_oscillators w) 60 = Some 0" "0 < length (wa_heap w)"
      "distinct (wa_activeNotes w)" "distinct (map fst (wa_oscillators w))"
    using m by (simp_all add: Set_has_def)
  note r = wa_retrigger [OF h, of 1 0 2 b]
  show "wa_activeNotes (fst wa_retriggered_60) = [60]"
    unfolding wa_retriggered_60_def wb wa_noteOn_activeNotes using m by (simp add: Set_add_def)
  show "length (wa_heap (fst wa_retriggered_60)) = 2"
    unfolding wa_retriggered_60_def wb using r(7) m by simp
  show "\<not> wa_released (wa_heap (fst wa_retriggered_60) ! 1)"
    unfolding wa_retriggered_60_def wb using r(9) m by simp
  show "map timer_callback (timers (snd wa_retriggered_60)) = [WebAudioDeleteNote 60, WebAudioDeleteNote 60]"
    unfolding wa_retriggered_60_def wb using r(10) m by simp
  show "map timer_id (timers (snd wa_retriggered_60)) = [1, 2]"
    unfolding wa_retriggered_60_def wb using r(10) m by simp
  show "wa_oscillators (fst wa_retriggered_60) = [(60, 1)]"
    unfolding wa_retriggered_60_def wb using m
    by (simp add: wa_build_voice_def Let_def setTimeout_def new_timer_def split: prod.splits)
  show "wa_gains (fst wa_retriggered_60) = [(60, 1)]"
    unfolding wa_retriggered_60_def wb using m
    by (simp add: wa_build_voice_def Let_def setTimeout_def new_timer_def split: prod.splits)
  show "wa_filters (fst wa_retriggered_60) = [(60, 1)]"
    unfolding wa_retriggered_60_def wb using m
    by (simp add: wa_build_voice_def Let_def setTimeout_def new_timer_def split: prod.splits)
  show "wa_lfos (fst wa_retriggered_60) = []"
    unfolding wa_retriggered_60_def wb using m
    by (simp add: wa_build_voice_def Let_def setTimeout_def new_timer_def wa_new_voice_def
        constructor_params_def split: prod.splits)
qed

text \<open>
  C2, in the Web Audio class. After \<^verbatim>\<open>noteOn(60)\<close> and \<^verbatim>\<open>noteOff(60)\<close> the note
  is still in the set of active notes and still bound in the maps \<^verbatim>\<open>oscillators\<close>,
  \<^verbatim>\<open>gains\<close> and \<^verbatim>\<open>filters\<close>: \<^verbatim>\<open>noteOff\<close> has only registered a timeout of 400 ms
  that will delete it. When the note is triggered again before that timeout fires, the
  timeout deletes the entries of the new voice: the new voice is not released, no map
  knows it, and a later \<^verbatim>\<open>noteOff(60)\<close> leaves every voice as it is.
\<close>

theorem C2_webaudio_noteOff_defers_removal:
  "wa_getActiveNotes (fst wa_after_noteOff_60) = [60]
   \<and> map_of (wa_oscillators (fst wa_after_noteOff_60)) 60 = Some 0
   \<and> map_of (wa_gains (fst wa_after_noteOff_60)) 60 = Some 0
   \<and> map_of (wa_filters (fst wa_after_noteOff_60)) 60 = Some 0
   \<and> timers (snd wa_after_noteOff_60) =
       [\<lparr>timer_id = 1, timer_delay = 400, timer_repeats = False,
         timer_callback = WebAudioDeleteNote 60\<rparr>]
   \<and> map_of (wa_oscillators (fst wa_retriggered_60)) 60 = Some 1
   \<and> \<not> wa_released (wa_heap (fst wa_retriggered_60) ! 1)
   \<and> wa_getActiveNotes (fst wa_stale_timeout_fired) = []
   \<and> map_of (wa_oscillators (fst wa_stale_timeout_fired)) 60 = None
   \<and> map_of (wa_gains (fst wa_stale_timeout_fired)) 60 = None
   \<and> \<not> wa_released (wa_heap (fst wa_stale_timeout_fired) ! 1)
   \<and> wa_heap (fst (wa_noteOff 60 3 wa_stale_timeout_fired)) = wa_heap (fst wa_stale_timeout_fired)"
proof -
  have a: "wa_heap (fst wa_stale_timeout_fired) = wa_heap (fst wa_retriggered_60)"
    and b: "wa_getActiveNotes (fst wa_stale_timeout_fired) = []"
    and c: "wa_oscillators (fst wa_stale_timeout_fired) = []"
    and d: "wa_gains (fst wa_stale_timeout_fired) = []"
    and e: "wa_lfos (fst wa_stale_timeout_fired) = wa_lfos (fst wa_retriggered_60)"
    by (simp_all add: wa_stale_timeout_fired_def wa_delete_callback_def wa_getActiveNotes_def
        wa_retriggered_60_maps Set_delete_def)
  have f: "wa_heap (fst (wa_noteOff 60 3 wa_stale_timeout_fired)) = wa_heap (fst wa_stale_timeout_fired)"
  proof -
    obtain w b where wb: "wa_stale_timeout_fired = (w, b)"
      by (cases wa_stale_timeout_fired)
    have "wa_oscillators w = []" "wa_gains w = []" "wa_lfos w = []"
      using c d e unfolding wb by (simp_all add: wa_retriggered_60_maps)
    then show ?thesis
      unfolding wb by (simp add: Let_def split: prod.splits)
  qed
  show ?thesis
    using a b c d f wa_after_noteOff_60_maps wa_retriggered_60_maps
    by (simp add: wa_getActiveNotes_def)
qed

text \<open>
  What \<^verbatim>\<open>stopAllNotes\<close> does in the Web Audio class: the set and the six maps are empty
  when the call returns.
\<close>

lemma wa_stopAllNotes_clears_synchronously:
  "wa_getActiveNotes (wa_stopAllNotes now s) = []
   \<and> wa_oscillators (wa_stopAllNotes now s) = [] \<and> wa_gains (wa_stopAllNotes now s) = []
   \<and> wa_filters (wa_stopAllNotes now s) = [] \<and> wa_lfos (wa_stopAllNotes now s) = []
   \<and> wa_ringModOscillators (wa_stopAllNotes now s) = []
   \<and> wa_ringModGains (wa_stopAllNotes now s) = []"
  by (simp add: wa_stopAllNotes_def wa_getActiveNotes_def Let_def)

lemma tone_after_stopAllNotes_eq:
  "tone_after_stopAllNotes =
     (\<lparr>tone_heap = [tone_release_voice 1 (tone_new_voice constructor_params (midiNoteToFrequency 60) 0)],
       tone_voices = [(60, 0)], tone_params = constructor_params, tone_activeNotes = [60]\<rparr>,
      \<lparr>timers = [\<lparr>timer_id = 1, timer_delay = 400, timer_repeats = False,
                   timer_callback = ToneStopAllDispose\<rparr>], next_timer_id = 2\<rparr>)"
  by (simp add: tone_after_stopAllNotes_def tone_after_noteOn_60_eq heap_modify_def setTimeout_def
      new_timer_def empty_browser_def constructor_params_def)

lemma tone_noteOn_62_after_stop_eq:
  "tone_noteOn_62_after_stop =
     (\<lparr>tone_heap = [tone_release_voice 1 (tone_new_voice constructor_params (midiNoteToFrequency 60) 0),
                    tone_new_voice constructor_params (midiNoteToFrequency 62) 2],
       tone_voices = [(60, 0), (62, 1)], tone_params = constructor_params,
       tone_activeNotes = [60, 62]\<rparr>,
      \<lparr>timers = [\<lparr>timer_id = 1, timer_delay = 400, timer_repeats = False,
                   timer_callback = ToneStopAllDispose\<rparr>], next_timer_id = 2\<rparr>)"
  by (simp add: tone_noteOn_62_after_stop_def tone_after_stopAllNotes_eq tone_build_voice_def
      Set_has_def Set_add_def)

text \<open>
  C3, in the Tone.js class. After \<^verbatim>\<open>noteOn(60)\<close> and \<^verbatim>\<open>stopAllNotes()\<close> the note is
  still in the set of active notes and still bound in the map: \<^verbatim>\<open>stopAllNotes\<close> has
  only registered a timeout of 400 ms that will clear them. A voice started before that
  timeout fires (here for note 62) is disposed and forgotten by it, without having been
  released.
\<close>

theorem C3_tone_stopAllNotes_defers_clearing:
  "tone_activeNotes (fst tone_after_stopAllNotes) = [60]
   \<and> map_of (tone_voices (fst tone_after_stopAllNotes)) 60 = Some 0
   \<and> timers (snd tone_after_stopAllNotes) =
       [\<lparr>timer_id = 1, timer_delay = 400, timer_repeats = False,
         timer_callback = ToneStopAllDispose\<rparr>]
   \<and> map_of (tone_voices (fst tone_noteOn_62_after_stop)) 62 = Some 1
   \<and> \<not> tone_released (tone_heap (fst tone_noteOn_62_after_stop) ! 1)
   \<and> tone_activeNotes (fst tone_stop_timeout_fired) = []
   \<and> tone_voices (fst tone_stop_timeout_fired) = []
   \<and> \<not> tone_released (tone_heap (fst tone_stop_timeout_fired) ! 1)
   \<and> synth_disposed (vn_synth (tone_heap (fst tone_stop_timeout_fired) ! 1))"
  by (simp add: tone_after_stopAllNotes_eq tone_noteOn_62_after_stop_eq tone_stop_timeout_fired_def
      tone_stopAll_callback_def heap_modify_def tone_released_def tone_new_voice_def
      tone_dispose_voice_def tone_release_voice_def)

section \<open>Claims on the store\<close>

lemma length_random_steps [simp]: "length (random_steps len rnd k) = len"
  by (induction len arbitrary: k) (auto simp: Let_def split: prod.splits)

lemma random_steps_defined: "None \<notin> set (random_steps len rnd k)"
  by (induction len arbitrary: k) (auto simp: Let_def split: prod.splits)

lemma length_generateRandomSequence: "length (generateRandomSequence rnd) = 16"
  by (simp add: generateRandomSequence_def)

lemma preset_lengths:
  "length (preset_sequencerSteps preset_acidTechno) = 16"
  "length (preset_sequencerSteps preset_padAmbient) = 16"
  "length (preset_sequencerSteps preset_leadBright) = 16"
  "length (preset_sequencerSteps preset_bassDeep) = 16"
  "length (preset_sequencerSteps preset_pluckStaccato) = 16"
  "length (preset_sequencerSteps preset_experimental) = 16"
  by (simp_all add: preset_acidTechno_def preset_padAmbient_def preset_leadBright_def
      preset_bassDeep_def preset_pluckStaccato_def preset_experimental_def)

lemma preset_steps_defined:
  "None \<notin> set (preset_sequencerSteps preset_acidTechno)"
  "None \<notin> set (preset_sequencerSteps preset_padAmbient)"
  "None \<notin> set (preset_sequencerSteps preset_leadBright)"
  "None \<notin> set (preset_sequencerSteps preset_bassDeep)"
  "None \<notin> set (preset_sequencerSteps preset_pluckStaccato)"
  "None \<notin> set (preset_sequencerSteps preset_experimental)"
  by (simp_all add: preset_acidTechno_def preset_padAmbient_def preset_leadBright_def
      preset_bassDeep_def preset_pluckStaccato_def preset_experimental_def SequencerStep_def)

lemma PRESETS_pattern:
  "PRESETS k = Own_property pr \<Longrightarrow> is_pattern (preset_sequencerSteps pr)"
  by (auto simp: PRESETS_def preset_lengths preset_steps_defined is_pattern_def split: if_splits)

lemma array_set_pattern:
  assumes "is_pattern xs" and "i < 16"
  shows "is_pattern (array_set xs i v)"
proof (cases "i < 0")
  case True
  then show ?thesis using assms by (simp add: array_set_def)
next
  case False
  then have "nat i < length xs" using assms by (simp add: is_pattern_def nat_less_iff)
  then show ?thesis
    using assms False by (auto simp: array_set_def is_pattern_def dest: set_update_subset_insert [THEN subsetD])
qed

lemma store_apply_pattern:
  assumes "is_pattern (sequencerSteps s)" and "op_in_range c" and "store_apply c s = Some s'"
  shows "is_pattern (sequencerSteps s')"
proof (cases c)
  case (Op_setSequencerStep i nt)
  then show ?thesis
    using assms by (auto simp: setSequencerStep_def array_set_pattern)
next
  case (Op_loadPreset name)
  then show ?thesis
    using assms by (auto simp: loadPreset_def PRESETS_pattern split: preset_lookup.splits)
next
  case (Op_generateRandomSequence rnd)
  then show ?thesis
    using assms
    by (auto simp: store_generateRandomSequence_def generateRandomSequence_def is_pattern_def
        random_steps_defined)
next
  case Op_clearSequencer
  then show ?thesis
    using assms by (auto simp: clearSequencer_def is_pattern_def SequencerStep_def)
next
  case (Op_setCurrentStep st)
  then show ?thesis using assms by (auto simp: setCurrentStep_def)
next
  case (Op_setTempo bpm)
  then show ?thesis using assms by (auto simp: setTempo_def)
next
  case (Op_setIsSequencerRunning r)
  then show ?thesis using assms by (auto simp: setIsSequencerRunning_def)
qed

lemma store_run_pattern:
  assumes "is_pattern (sequencerSteps s)" and "list_all op_in_range cs" and "store_run cs s = Some s'"
  shows "is_pattern (sequencerSteps s')"
  using assms
proof (induction cs arbitrary: s)
  case Nil
  then show ?case by simp
next
  case (Cons c cs)
  from Cons.prems(3) obtain s1 where s1: "store_apply c s = Some s1" and r: "store_run cs s1 = Some s'"
    by (auto split: option.splits)
  have "is_pattern (sequencerSteps s1)"
    using store_apply_pattern [OF Cons.prems(1) _ s1] Cons.prems(2) by simp
  then show ?case
    using Cons.IH [OF _ _ r] Cons.prems(2) by simp
qed

lemma initial_store_pattern: "is_pattern (sequencerSteps initial_store)"
  by (simp add: initial_store_def preset_lengths preset_steps_defined is_pattern_def)

text \<open>
  C8, as amended. Starting from the initial state, after any sequence of the store's
  sequencer operations in which every \<^verbatim>\<open>setSequencerStep\<close> has an index below 16 and
  every \<^verbatim>\<open>loadPreset\<close> has a name that is a key of the preset table or that the table
  does not resolve at all, the pattern is a sequence of exactly 16 steps, each defined.
\<close>

theorem C8_pattern_length_invariant:
  assumes "list_all op_in_range cs" and "store_run cs initial_store = Some s"
  shows "length (sequencerSteps s) = 16 \<and> None \<notin> set (sequencerSteps s)"
  using store_run_pattern [OF initial_store_pattern assms] by (simp add: is_pattern_def)

theorem C8_pattern_length_invariant_witness:
  "list_all op_in_range
     [Op_setSequencerStep 3 some_step, Op_clearSequencer, Op_generateRandomSequence (\<lambda>k. 1 / 2),
      Op_loadPreset ''acidTechno'', Op_setSequencerStep 15 some_step, Op_loadPreset ''none'']
   \<and> store_run
     [Op_setSequencerStep 3 some_step, Op_clearSequencer, Op_generateRandomSequence (\<lambda>k. 1 / 2),
      Op_loadPreset ''acidTechno'', Op_setSequencerStep 15 some_step, Op_loadPreset ''none'']
     initial_store
     = Some (setSequencerStep 15 some_step (the (loadPreset ''acidTechno'' initial_store)))
   \<and> length (sequencerSteps (setSequencerStep 15 some_step (the (loadPreset ''acidTechno'' initial_store)))) = 16
   \<and> None \<notin> set (sequencerSteps (setSequencerStep 15 some_step (the (loadPreset ''acidTechno'' initial_store))))"
proof -
  let ?cs = "[Op_setSequencerStep 3 some_step, Op_clearSequencer, Op_generateRandomSequence (\<lambda>k. 1 / 2),
      Op_loadPreset ''acidTechno'', Op_setSequencerStep 15 some_step, Op_loadPreset ''none'']"
  have r: "list_all op_in_range ?cs" by simp
  have run: "store_run ?cs initial_store
     = Some (setSequencerStep 15 some_step (the (loadPreset ''acidTechno'' initial_store)))"
    by (simp add: loadPreset_def PRESETS_def Object_prototype_names_def setSequencerStep_def
        clearSequencer_def store_generateRandomSequence_def)
  from C8_pattern_length_invariant [OF r run] r run show ?thesis by blast
qed

text \<open>
  C8 as stated fails: \<^verbatim>\<open>setSequencerStep(16, step)\<close> on the initial state gives a
  pattern of 17 steps, and \<^verbatim>\<open>loadPreset("constructor")\<close> stores an \<^verbatim>\<open>undefined\<close>
  pattern (no state of the store's type).
\<close>

theorem C8_pattern_length_counterexample:
  "store_run [Op_setSequencerStep 16 some_step] initial_store
     = Some (setSequencerStep 16 some_step initial_store)
   \<and> length (sequencerSteps (setSequencerStep 16 some_step initial_store)) = 17
   \<and> store_run [Op_loadPreset ''constructor''] initial_store = None"
  using initial_store_pattern
  by (simp add: setSequencerStep_def array_set_def is_pattern_def loadPreset_def PRESETS_def
      Object_prototype_names_def)

section \<open>Lemmas on the sequencer clock\<close>

subsection \<open>The timer queue\<close>

lemma timers_new_timer:
  "timers (snd (new_timer rep cb d b)) =
     timers b @ [\<lparr>timer_id = next_timer_id b, timer_delay = d, timer_repeats = rep, timer_callback = cb\<rparr>]"
  "next_timer_id (snd (new_timer rep cb d b)) = Suc (next_timer_id b)"
  "fst (new_timer rep cb d b) = next_timer_id b"
  by (simp_all add: new_timer_def)

lemma timers_clearTimeout [simp]:
  "timers (clearTimeout i b) = filter (\<lambda>t. timer_id t \<noteq> i) (timers b)"
  "next_timer_id (clearTimeout i b) = next_timer_id b"
  by (simp_all add: clearTimeout_def)

lemma fold_clearTimeout:
  "timers (fold clearTimeout ids b) = filter (\<lambda>t. timer_id t \<notin> set ids) (timers b)
   \<and> next_timer_id (fold clearTimeout ids b) = next_timer_id b"
proof (induction ids arbitrary: b)
  case Nil
  then show ?case by simp
next
  case (Cons i ids)
  have "filter (\<lambda>t. timer_id t \<notin> set ids) (filter (\<lambda>t. timer_id t \<noteq> i) (timers b))
        = filter (\<lambda>t. timer_id t \<notin> set (i # ids)) (timers b)"
    by (induction "timers b") auto
  with Cons show ?case by simp
qed

subsection \<open>The Tone.js operations add only their own timers\<close>

lemma tone_timers_only_refl [simp]: "tone_timers_only b b"
  by (simp add: tone_timers_only_def)

lemma tone_timers_only_trans:
  "tone_timers_only b b' \<Longrightarrow> tone_timers_only b' b'' \<Longrightarrow> tone_timers_only b b''"
  by (auto simp: tone_timers_only_def)

lemma tone_noteOff_timers: "tone_timers_only b (snd (tone_noteOff n now (s, b)))"
  by (auto simp: tone_timers_only_def setTimeout_def new_timer_def split: option.splits)

lemma tone_noteOn_timers: "tone_timers_only b (snd (tone_noteOn n vel sl now (s, b)))"
  by (auto simp: tone_timers_only_def setTimeout_def new_timer_def split: option.splits)

lemma tone_stopAllNotes_timers: "tone_timers_only b (snd (tone_stopAllNotes now (s, b)))"
  by (auto simp: tone_timers_only_def setTimeout_def new_timer_def Let_def split: option.splits prod.splits)

lemma synth_only_refl [simp]: "synth_only a a"
  by (simp add: synth_only_def)

lemma synth_only_trans: "synth_only a a' \<Longrightarrow> synth_only a' a'' \<Longrightarrow> synth_only a a''"
  by (auto simp: synth_only_def intro: tone_timers_only_trans)

lemma app_noteOn_synth_only: "synth_only a (app_noteOn n vel sl now a)"
proof (cases "synthRef a")
  case None
  then show ?thesis by (simp add: app_noteOn_def)
next
  case (Some sy)
  obtain sy' b' where r: "tone_noteOn n vel sl now (sy, window a) = (sy', b')"
    by (cases "tone_noteOn n vel sl now (sy, window a)")
  have "tone_timers_only (window a) b'"
    using tone_noteOn_timers [of "window a" n vel sl now sy] r by simp
  then show ?thesis
    using Some r by (simp add: app_noteOn_def synth_only_def del: tone_noteOn.simps)
qed

lemma app_noteOff_synth_only: "synth_only a (app_noteOff n now a)"
proof (cases "synthRef a")
  case None
  then show ?thesis by (simp add: app_noteOff_def)
next
  case (Some sy)
  obtain sy' b' where r: "tone_noteOff n now (sy, window a) = (sy', b')"
    by (cases "tone_noteOff n now (sy, window a)")
  have "tone_timers_only (window a) b'"
    using tone_noteOff_timers [of "window a" n now sy] r by simp
  then show ?thesis
    using Some r by (simp add: app_noteOff_def synth_only_def del: tone_noteOff.simps)
qed

lemma app_stopAllNotes_synth_only: "synth_only a (app_stopAllNotes now a)"
proof (cases "synthRef a")
  case None
  then show ?thesis by (simp add: app_stopAllNotes_def)
next
  case (Some sy)
  obtain sy' b' where r: "tone_stopAllNotes now (sy, window a) = (sy', b')"
    by (cases "tone_stopAllNotes now (sy, window a)")
  have "tone_timers_only (window a) b'"
    using tone_stopAllNotes_timers [of "window a" now sy] r by simp
  then show ?thesis
    using Some r by (simp add: app_stopAllNotes_def synth_only_def del: tone_stopAllNotes.simps)
qed

lemma release_key_synth_only: "synth_only a (release_key now k a)"
  using app_noteOff_synth_only [of a k now]
  by (simp add: release_key_def Let_def synth_only_def setActiveKey_def)

lemma fold_release_key_synth_only: "synth_only a (fold (release_key now) ks a)"
proof (induction ks arbitrary: a)
  case Nil
  then show ?case by simp
next
  case (Cons k ks)
  show ?case
    using synth_only_trans [OF release_key_synth_only Cons.IH] by simp
qed

lemma synth_only_tracked:
  assumes "synth_only a a'" and "seq_timers_tracked a"
  shows "seq_timers_tracked a'"
proof -
  from assms(1) obtain ts where ts: "timers (window a') = timers (window a) @ ts"
      and ns: "list_all (\<lambda>t. \<not> is_seq_callback (timer_callback t)) ts"
      and le: "next_timer_id (window a) \<le> next_timer_id (window a')"
    by (auto simp: synth_only_def tone_timers_only_def)
  have same: "tracked a' t = tracked a t" for t
    using assms(1) by (simp add: tracked_def synth_only_def split: timer_action.splits)
  have "tracked a' t" if "t \<in> set ts" for t
  proof -
    from ns that have "\<not> is_seq_callback (timer_callback t)" by (simp add: list_all_iff)
    then show ?thesis by (cases "timer_callback t") (simp_all add: tracked_def)
  qed
  then show ?thesis
    using assms ts le same by (auto simp: seq_timers_tracked_def synth_only_def list_all_iff)
qed

lemma synth_only_seq_timers:
  assumes "synth_only a a'"
  shows "seq_timers (window a') = seq_timers (window a)"
proof -
  from assms obtain ts where ts: "timers (window a') = timers (window a) @ ts"
      and ns: "list_all (\<lambda>t. \<not> is_seq_callback (timer_callback t)) ts"
    by (auto simp: synth_only_def tone_timers_only_def)
  from ns have "filter (\<lambda>t. is_seq_callback (timer_callback t)) ts = []"
    by (induction ts) auto
  then show ?thesis by (simp add: seq_timers_def ts)
qed

lemma is_seq_callback_iff: "is_seq_callback cb = (is_tick cb \<or> is_noteOff cb)"
  by (cases cb) simp_all

lemma no_seq_timers_iff:
  "no_seq_timers a =
     (list_all (\<lambda>t. \<not> is_tick (timer_callback t)) (timers (window a))
      \<and> list_all (\<lambda>t. \<not> is_noteOff (timer_callback t)) (timers (window a)))"
  by (auto simp: no_seq_timers_def seq_timers_def filter_empty_conv list_all_iff is_seq_callback_iff)

lemma tracked_tick: "tracked a t \<Longrightarrow> is_tick (timer_callback t) \<Longrightarrow>
    timer_id t \<noteq> 0 \<and> sequencerIntervalRef a = Some (timer_id t) \<and> effect_has_cleanup a"
  by (cases "timer_callback t") (simp_all add: tracked_def)

lemma tracked_noteOff: "tracked a t \<Longrightarrow> is_noteOff (timer_callback t) \<Longrightarrow>
    \<not> timer_repeats t \<and> timer_id t \<in> set (pendingNoteOffsRef a)"
  by (cases "timer_callback t") (simp_all add: tracked_def)

lemma tracked_other: "\<not> is_seq_callback (timer_callback t) \<Longrightarrow> tracked a t"
  by (cases "timer_callback t") (simp_all add: tracked_def)

lemma tracked_no_seq:
  assumes "no_seq_timers a" and "0 < next_timer_id (window a)" and "sequencerIntervalRef a \<noteq> Some 0"
  shows "seq_timers_tracked a"
  using assms
  by (auto simp: seq_timers_tracked_def no_seq_timers_def seq_timers_def filter_empty_conv
      list_all_iff intro: tracked_other)

lemma cancel_pending_timers:
  "timers (window (cancel_pending a)) =
     filter (\<lambda>t. timer_id t \<notin> set (pendingNoteOffsRef a)) (timers (window a))"
  "next_timer_id (window (cancel_pending a)) = next_timer_id (window a)"
  by (simp_all add: cancel_pending_def fold_clearTimeout)

lemma cancel_pending_fields [simp]:
  "sequencerIntervalRef (cancel_pending a) = sequencerIntervalRef a"
  "pendingNoteOffsRef (cancel_pending a) = []"
  "effect_has_cleanup (cancel_pending a) = effect_has_cleanup a"
  "store (cancel_pending a) = store a"
  "fired (cancel_pending a) = fired a"
  "synthRef (cancel_pending a) = synthRef a"
  "synth_calls (cancel_pending a) = synth_calls a"
  by (simp_all add: cancel_pending_def)

lemma cancel_pending_tracked:
  assumes "seq_timers_tracked a"
  shows "seq_timers_tracked (cancel_pending a)"
    and "list_all (\<lambda>t. \<not> is_noteOff (timer_callback t)) (timers (window (cancel_pending a)))"
proof -
  have tr: "tracked a t" if "t \<in> set (timers (window a))" for t
    using assms that by (simp add: seq_timers_tracked_def list_all_iff)
  show "list_all (\<lambda>t. \<not> is_noteOff (timer_callback t)) (timers (window (cancel_pending a)))"
    using tr tracked_noteOff by (auto simp: cancel_pending_timers list_all_iff)
  then have no: "\<not> is_noteOff (timer_callback t)" if "t \<in> set (timers (window (cancel_pending a)))" for t
    using that by (simp add: list_all_iff)
  have "tracked (cancel_pending a) t" if t: "t \<in> set (timers (window (cancel_pending a)))" for t
  proof (cases "is_tick (timer_callback t)")
    case True
    from t have "t \<in> set (timers (window a))" by (simp add: cancel_pending_timers)
    from tracked_tick [OF tr [OF this] True] True show ?thesis
      by (cases "timer_callback t") (simp_all add: tracked_def)
  next
    case False
    with no [OF t] have "\<not> is_seq_callback (timer_callback t)"
      by (simp add: is_seq_callback_iff)
    then show ?thesis by (rule tracked_other)
  qed
  then show "seq_timers_tracked (cancel_pending a)"
    using assms by (simp add: seq_timers_tracked_def list_all_iff cancel_pending_timers(2))
qed

lemma cancel_pending_ticks:
  "list_all (\<lambda>t. \<not> is_tick (timer_callback t)) (timers (window a)) \<Longrightarrow>
   list_all (\<lambda>t. \<not> is_tick (timer_callback t)) (timers (window (cancel_pending a)))"
  by (simp add: cancel_pending_timers list_all_iff)

text \<open>Clearing the interval.\<close>

lemma clear_sequencer_interval_fields [simp]:
  "pendingNoteOffsRef (clear_sequencer_interval a) = pendingNoteOffsRef a"
  "effect_has_cleanup (clear_sequencer_interval a) = effect_has_cleanup a"
  "store (clear_sequencer_interval a) = store a"
  "fired (clear_sequencer_interval a) = fired a"
  "synthRef (clear_sequencer_interval a) = synthRef a"
  "synth_calls (clear_sequencer_interval a) = synth_calls a"
  "next_timer_id (window (clear_sequencer_interval a)) = next_timer_id (window a)"
  by (simp_all add: clear_sequencer_interval_def clearInterval_def split: option.splits)

lemma clear_sequencer_interval_subset:
  "set (timers (window (clear_sequencer_interval a))) \<subseteq> set (timers (window a))"
  by (auto simp: clear_sequencer_interval_def clearInterval_def split: option.splits)

lemma clear_sequencer_interval_tracked:
  assumes "seq_timers_tracked a"
  shows "seq_timers_tracked (clear_sequencer_interval a)"
    and "list_all (\<lambda>t. \<not> is_tick (timer_callback t)) (timers (window (clear_sequencer_interval a)))"
    and "sequencerIntervalRef (clear_sequencer_interval a) = None"
proof -
  have tr: "tracked a t" if "t \<in> set (timers (window a))" for t
    using assms that by (simp add: seq_timers_tracked_def list_all_iff)
  have ref0: "sequencerIntervalRef a \<noteq> Some 0"
    using assms by (simp add: seq_timers_tracked_def)
  show ref: "sequencerIntervalRef (clear_sequencer_interval a) = None"
    using ref0 by (auto simp: clear_sequencer_interval_def split: option.splits)
  have "\<not> is_tick (timer_callback t)"
    if t: "t \<in> set (timers (window (clear_sequencer_interval a)))" for t
  proof
    assume tick: "is_tick (timer_callback t)"
    from t have ta: "t \<in> set (timers (window a))"
      using clear_sequencer_interval_subset by blast
    from tracked_tick [OF tr [OF ta] tick]
    have "timer_id t \<noteq> 0" and "sequencerIntervalRef a = Some (timer_id t)" by simp_all
    then have "timers (window (clear_sequencer_interval a)) =
        filter (\<lambda>u. timer_id u \<noteq> timer_id t) (timers (window a))"
      by (simp add: clear_sequencer_interval_def clearInterval_def)
    with t show False by simp
  qed
  then show nt: "list_all (\<lambda>t. \<not> is_tick (timer_callback t)) (timers (window (clear_sequencer_interval a)))"
    by (simp add: list_all_iff)
  have "tracked (clear_sequencer_interval a) t"
    if t: "t \<in> set (timers (window (clear_sequencer_interval a)))" for t
  proof (cases "is_noteOff (timer_callback t)")
    case True
    from t have "t \<in> set (timers (window a))"
      using clear_sequencer_interval_subset by blast
    from tracked_noteOff [OF tr [OF this] True] True show ?thesis
      by (cases "timer_callback t") (simp_all add: tracked_def)
  next
    case False
    moreover from nt t have "\<not> is_tick (timer_callback t)" by (simp add: list_all_iff)
    ultimately have "\<not> is_seq_callback (timer_callback t)"
      by (simp add: is_seq_callback_iff)
    then show ?thesis by (rule tracked_other)
  qed
  then show "seq_timers_tracked (clear_sequencer_interval a)"
    using assms ref by (simp add: seq_timers_tracked_def list_all_iff)
qed

lemma clear_sequencer_interval_noteOffs:
  "list_all (\<lambda>t. \<not> is_noteOff (timer_callback t)) (timers (window a)) \<Longrightarrow>
   list_all (\<lambda>t. \<not> is_noteOff (timer_callback t)) (timers (window (clear_sequencer_interval a)))"
  using clear_sequencer_interval_subset [of a] by (auto simp: list_all_iff)

text \<open>\<^verbatim>\<open>stopAllAudio\<close> is: cancel the pending note-offs, then calls on the synthesizer.\<close>

lemma stopAllAudio_eq:
  "stopAllAudio now a =
     fold (release_key now) (activeKeys (store a)) (app_stopAllNotes now (cancel_pending a))"
  by (simp add: stopAllAudio_def cancel_pending_def Let_def)

lemma stopAllAudio_synth_only: "synth_only (cancel_pending a) (stopAllAudio now a)"
  unfolding stopAllAudio_eq
  by (rule synth_only_trans [OF app_stopAllNotes_synth_only fold_release_key_synth_only])

lemma synth_only_no_ticks:
  assumes "synth_only a a'" and "list_all (\<lambda>t. \<not> is_tick (timer_callback t)) (timers (window a))"
  shows "list_all (\<lambda>t. \<not> is_tick (timer_callback t)) (timers (window a'))"
  using assms
  by (auto simp: synth_only_def tone_timers_only_def list_all_iff is_seq_callback_iff)

lemma synth_only_no_noteOffs:
  assumes "synth_only a a'" and "list_all (\<lambda>t. \<not> is_noteOff (timer_callback t)) (timers (window a))"
  shows "list_all (\<lambda>t. \<not> is_noteOff (timer_callback t)) (timers (window a'))"
  using assms
  by (auto simp: synth_only_def tone_timers_only_def list_all_iff is_seq_callback_iff)

lemma stopAllAudio_tracked:
  assumes "seq_timers_tracked a"
  shows "seq_timers_tracked (stopAllAudio now a)"
    and "list_all (\<lambda>t. \<not> is_noteOff (timer_callback t)) (timers (window (stopAllAudio now a)))"
    and "pendingNoteOffsRef (stopAllAudio now a) = []"
    and "sequencerIntervalRef (stopAllAudio now a) = sequencerIntervalRef a"
    and "effect_has_cleanup (stopAllAudio now a) = effect_has_cleanup a"
    and "isSequencerRunning (store (stopAllAudio now a)) = isSequencerRunning (store a)"
    and "fired (stopAllAudio now a) = fired a"
  using synth_only_tracked [OF stopAllAudio_synth_only cancel_pending_tracked(1) [OF assms]]
        synth_only_no_noteOffs [OF stopAllAudio_synth_only cancel_pending_tracked(2) [OF assms]]
        stopAllAudio_synth_only [of a now]
  by (simp_all add: synth_only_def)

lemma stopAllAudio_no_ticks:
  assumes "list_all (\<lambda>t. \<not> is_tick (timer_callback t)) (timers (window a))"
  shows "list_all (\<lambda>t. \<not> is_tick (timer_callback t)) (timers (window (stopAllAudio now a)))"
  by (rule synth_only_no_ticks [OF stopAllAudio_synth_only cancel_pending_ticks [OF assms]])

text \<open>The effect body for a stopped sequencer.\<close>

lemma sequencer_effect_stopped:
  assumes "seq_timers_tracked a" and "\<not> isSequencerRunning (store a)"
  shows "stopped_quiet (sequencer_effect now a)"
    and "sequencerIntervalRef (sequencer_effect now a) = None"
    and "pendingNoteOffsRef (sequencer_effect now a) = []"
    and "fired (sequencer_effect now a) = fired a"
proof -
  let ?c = "clear_sequencer_interval a"
  let ?s = "stopAllAudio now ?c"
  note c = clear_sequencer_interval_tracked [OF assms(1)]
  note s = stopAllAudio_tracked [OF c(1), of now]
  have eq: "sequencer_effect now a = ?s\<lparr>effect_has_cleanup := False\<rparr>"
    using assms(2) by (simp add: sequencer_effect_def)
  have nt: "list_all (\<lambda>t. \<not> is_tick (timer_callback t)) (timers (window ?s))"
    by (rule stopAllAudio_no_ticks [OF c(2)])
  have ns: "no_seq_timers (?s\<lparr>effect_has_cleanup := False\<rparr>)"
    using nt s(2) by (simp add: no_seq_timers_iff)
  have "seq_timers_tracked (?s\<lparr>effect_has_cleanup := False\<rparr>)"
    using s(1) s(4) c(3) by (intro tracked_no_seq [OF ns]) (simp_all add: seq_timers_tracked_def)
  then show "stopped_quiet (sequencer_effect now a)"
    using ns s(6) assms(2) by (simp add: eq stopped_quiet_def)
  show "sequencerIntervalRef (sequencer_effect now a) = None"
    using s(4) c(3) by (simp add: eq)
  show "pendingNoteOffsRef (sequencer_effect now a) = []"
    using s(3) by (simp add: eq)
  show "fired (sequencer_effect now a) = fired a"
    using s(7) by (simp add: eq)
qed

lemma sequencer_effect_cleanup_eq:
  "sequencer_effect_cleanup a = cancel_pending (clear_sequencer_interval a)"
  by (simp add: sequencer_effect_cleanup_def cancel_pending_def Let_def)

lemma sequencer_effect_cleanup_tracked:
  assumes "seq_timers_tracked a"
  shows "seq_timers_tracked (sequencer_effect_cleanup a)"
    and "no_seq_timers (sequencer_effect_cleanup a)"
    and "fired (sequencer_effect_cleanup a) = fired a"
    and "store (sequencer_effect_cleanup a) = store a"
proof -
  note c = clear_sequencer_interval_tracked [OF assms]
  note p = cancel_pending_tracked [OF c(1)]
  show "seq_timers_tracked (sequencer_effect_cleanup a)"
    using p(1) by (simp add: sequencer_effect_cleanup_eq)
  show "no_seq_timers (sequencer_effect_cleanup a)"
    using p(2) cancel_pending_ticks [OF c(2)] by (simp add: sequencer_effect_cleanup_eq no_seq_timers_iff)
  show "fired (sequencer_effect_cleanup a) = fired a" "store (sequencer_effect_cleanup a) = store a"
    by (simp_all add: sequencer_effect_cleanup_eq)
qed

text \<open>The effect body for a running sequencer, on a queue without an interval of its.\<close>

lemma sequencer_effect_running:
  assumes tr: "seq_timers_tracked a"
      and nt: "list_all (\<lambda>t. \<not> is_tick (timer_callback t)) (timers (window a))"
      and run: "isSequencerRunning (store a)"
  shows "seq_timers_tracked (sequencer_effect now a)"
    and "fired (sequencer_effect now a) = fired a"
proof -
  let ?i = "next_timer_id (window a)"
  let ?ms = "60000 / tempo (store a) / 4"
  let ?t = "\<lparr>timer_id = ?i, timer_delay = ?ms, timer_repeats = True,
              timer_callback = SeqTick ?ms (currentStep (store a))\<rparr>"
  have eq: "sequencer_effect now a =
      a\<lparr>sequencerIntervalRef := Some ?i,
        window := (window a)\<lparr>timers := timers (window a) @ [?t], next_timer_id := Suc ?i\<rparr>,
        effect_has_cleanup := True\<rparr>"
    using run by (simp add: sequencer_effect_def setInterval_def new_timer_def Let_def)
  have pos: "0 < ?i" using tr by (simp add: seq_timers_tracked_def)
  have old: "tracked (sequencer_effect now a) t" if t: "t \<in> set (timers (window a))" for t
  proof (cases "is_noteOff (timer_callback t)")
    case True
    from tr t have "tracked a t" by (simp add: seq_timers_tracked_def list_all_iff)
    from tracked_noteOff [OF this True] True show ?thesis
      by (cases "timer_callback t") (simp_all add: tracked_def eq)
  next
    case False
    moreover from nt t have "\<not> is_tick (timer_callback t)" by (simp add: list_all_iff)
    ultimately have "\<not> is_seq_callback (timer_callback t)" by (simp add: is_seq_callback_iff)
    then show ?thesis by (rule tracked_other)
  qed
  have new: "tracked (sequencer_effect now a) ?t"
    using pos by (simp add: tracked_def eq)
  show "seq_timers_tracked (sequencer_effect now a)"
    using old new pos by (auto simp: seq_timers_tracked_def list_all_iff eq)
  show "fired (sequencer_effect now a) = fired a"
    by (simp add: eq)
qed

lemma tracked_without_cleanup_no_ticks:
  assumes "seq_timers_tracked a" and "\<not> effect_has_cleanup a"
  shows "list_all (\<lambda>t. \<not> is_tick (timer_callback t)) (timers (window a))"
proof -
  have "\<not> is_tick (timer_callback t)" if t: "t \<in> set (timers (window a))" for t
  proof
    assume "is_tick (timer_callback t)"
    moreover from assms(1) t have "tracked a t" by (simp add: seq_timers_tracked_def list_all_iff)
    ultimately show False using tracked_tick assms(2) by blast
  qed
  then show ?thesis by (simp add: list_all_iff)
qed

lemma rerun_sequencer_effect_tracked:
  assumes "seq_timers_tracked a"
  shows "seq_timers_tracked (rerun_sequencer_effect now a)"
    and "fired (rerun_sequencer_effect now a) = fired a"
    and "\<not> isSequencerRunning (store a) \<Longrightarrow> stopped_quiet (rerun_sequencer_effect now a)"
    and "\<not> isSequencerRunning (store a) \<Longrightarrow> sequencerIntervalRef (rerun_sequencer_effect now a) = None"
    and "\<not> isSequencerRunning (store a) \<Longrightarrow> pendingNoteOffsRef (rerun_sequencer_effect now a) = []"
proof -
  let ?b = "if effect_has_cleanup a then sequencer_effect_cleanup a else a"
  have eq: "rerun_sequencer_effect now a = sequencer_effect now ?b"
    by (simp add: rerun_sequencer_effect_def)
  have b: "seq_timers_tracked ?b" "fired ?b = fired a" "store ?b = store a"
    using sequencer_effect_cleanup_tracked [OF assms] assms by simp_all
  have nt: "list_all (\<lambda>t. \<not> is_tick (timer_callback t)) (timers (window ?b))"
  proof (cases "effect_has_cleanup a")
    case True
    then show ?thesis
      using sequencer_effect_cleanup_tracked(2) [OF assms] by (simp add: no_seq_timers_iff)
  next
    case False
    then show ?thesis
      using tracked_without_cleanup_no_ticks [OF assms] by simp
  qed
  show "seq_timers_tracked (rerun_sequencer_effect now a)"
  proof (cases "isSequencerRunning (store a)")
    case True
    then show ?thesis
      unfolding eq using sequencer_effect_running(1) [OF b(1) nt] b(3) by simp
  next
    case False
    then show ?thesis
      unfolding eq using sequencer_effect_stopped(1) [OF b(1)] b(3) by (simp add: stopped_quiet_def)
  qed
  show "fired (rerun_sequencer_effect now a) = fired a"
  proof (cases "isSequencerRunning (store a)")
    case True
    then show ?thesis
      unfolding eq using sequencer_effect_running(2) [OF b(1) nt] b(2,3) by simp
  next
    case False
    then show ?thesis
      unfolding eq using sequencer_effect_stopped(4) [OF b(1)] b(2,3) by simp
  qed
  show "stopped_quiet (rerun_sequencer_effect now a)" if "\<not> isSequencerRunning (store a)"
    unfolding eq using sequencer_effect_stopped(1) [OF b(1)] b(3) that by simp
  show "sequencerIntervalRef (rerun_sequencer_effect now a) = None" if "\<not> isSequencerRunning (store a)"
    unfolding eq using sequencer_effect_stopped(2) [OF b(1)] b(3) that by simp
  show "pendingNoteOffsRef (rerun_sequencer_effect now a) = []" if "\<not> isSequencerRunning (store a)"
    unfolding eq using sequencer_effect_stopped(3) [OF b(1)] b(3) that by simp
qed

lemma tracked_frame:
  assumes "sequencerIntervalRef a' = sequencerIntervalRef a"
      and "pendingNoteOffsRef a' = pendingNoteOffsRef a"
      and "effect_has_cleanup a' = effect_has_cleanup a"
  shows "tracked a' t = tracked a t"
  using assms by (simp add: tracked_def split: timer_action.splits)

lemma seq_timers_tracked_frame:
  assumes "sequencerIntervalRef a' = sequencerIntervalRef a"
      and "pendingNoteOffsRef a' = pendingNoteOffsRef a"
      and "effect_has_cleanup a' = effect_has_cleanup a"
      and "next_timer_id (window a') = next_timer_id (window a)"
      and "set (timers (window a')) \<subseteq> set (timers (window a))"
      and "seq_timers_tracked a"
  shows "seq_timers_tracked a'"
  using assms tracked_frame [OF assms(1-3)]
  by (auto simp: seq_timers_tracked_def list_all_iff)

lemma no_seq_timers_frame:
  assumes "set (timers (window a')) \<subseteq> set (timers (window a))" and "no_seq_timers a"
  shows "no_seq_timers a'"
  using assms by (auto simp: no_seq_timers_def seq_timers_def filter_empty_conv)

lemma synth_only_no_seq_timers:
  "synth_only a a' \<Longrightarrow> no_seq_timers a \<Longrightarrow> no_seq_timers a'"
  using synth_only_seq_timers [of a a'] by (simp add: no_seq_timers_def)

lemma synth_only_stopped_quiet:
  "synth_only a a' \<Longrightarrow> stopped_quiet a \<Longrightarrow> stopped_quiet a'"
  using synth_only_tracked [of a a'] synth_only_no_seq_timers [of a a']
  by (auto simp: stopped_quiet_def synth_only_def)

lemma same_sequencer_tracked: "same_sequencer a a' \<Longrightarrow> seq_timers_tracked a \<Longrightarrow> seq_timers_tracked a'"
  by (rule seq_timers_tracked_frame [of a' a]) (simp_all add: same_sequencer_def)

lemma same_sequencer_no_seq: "same_sequencer a a' \<Longrightarrow> no_seq_timers a \<Longrightarrow> no_seq_timers a'"
  by (simp add: same_sequencer_def no_seq_timers_def)

lemma find_timer_Some:
  "find_timer tid b = Some t \<Longrightarrow> t \<in> set (timers b) \<and> timer_id t = tid"
  by (auto simp: find_timer_def find_Some_iff)

text \<open>The interval's callback.\<close>

lemma tick_advance_tracked:
  assumes inv: "seq_timers_tracked a"
      and ref: "tid \<noteq> 0" "sequencerIntervalRef a = Some tid" "effect_has_cleanup a"
  shows "seq_timers_tracked (tick_advance tid ms ns a)"
proof -
  let ?a1 = "tick_advance tid ms ns a"
  have tr: "tracked a t" if "t \<in> set (timers (window a))" for t
    using inv that by (simp add: seq_timers_tracked_def list_all_iff)
  have f1: "tracked ?a1 t = tracked a t" for t
    by (rule tracked_frame) (simp_all add: tick_advance_def)
  have "tracked ?a1 u" if u: "u \<in> set (timers (window ?a1))" for u
  proof -
    from u obtain t where t: "t \<in> set (timers (window a))"
        and ut: "u = (if timer_id t = tid \<and> timer_repeats t then t\<lparr>timer_callback := SeqTick ms ns\<rparr> else t)"
      by (auto simp: set_closure_def tick_advance_def)
    show ?thesis
    proof (cases "timer_id t = tid \<and> timer_repeats t")
      case True
      then show ?thesis using ut ref by (simp add: tracked_def tick_advance_def)
    next
      case False
      then have "u = t" using ut by auto
      then show ?thesis using tr [OF t] f1 by simp
    qed
  qed
  then show ?thesis
    using inv by (simp add: seq_timers_tracked_def list_all_iff set_closure_def tick_advance_def)
qed

lemma tick_advance_fields [simp]:
  "fired (tick_advance tid ms ns a) = fired a"
  "synthRef (tick_advance tid ms ns a) = synthRef a"
  "synth_calls (tick_advance tid ms ns a) = synth_calls a"
  "sequencerStepsRef (tick_advance tid ms ns a) = sequencerStepsRef a"
  "pendingNoteOffsRef (tick_advance tid ms ns a) = pendingNoteOffsRef a"
  "currentStep (store (tick_advance tid ms ns a)) = ns"
  by (simp_all add: tick_advance_def setCurrentStep_def)

lemma schedule_noteOff_eq:
  "schedule_noteOff ms nt a =
     a\<lparr>window := (window a)\<lparr>timers := timers (window a) @
                      [\<lparr>timer_id = next_timer_id (window a),
                        timer_delay = ms * step_duration nt * 0.9, timer_repeats = False,
                        timer_callback = SeqNoteOff (step_note nt)\<rparr>],
                    next_timer_id := Suc (next_timer_id (window a))\<rparr>,
       pendingNoteOffsRef := Set_add (next_timer_id (window a)) (pendingNoteOffsRef a)\<rparr>"
  by (simp add: schedule_noteOff_def setTimeout_def new_timer_def)

lemma schedule_noteOff_tracked:
  assumes "seq_timers_tracked a"
  shows "seq_timers_tracked (schedule_noteOff ms nt a)"
proof -
  let ?a3 = "schedule_noteOff ms nt a"
  have "tracked ?a3 u" if u: "u \<in> set (timers (window a))" for u
  proof -
    from assms u have "tracked a u" by (simp add: seq_timers_tracked_def list_all_iff)
    then show ?thesis
      by (cases "timer_callback u") (auto simp: tracked_def Set_add_def schedule_noteOff_eq)
  qed
  moreover have "tracked ?a3 \<lparr>timer_id = next_timer_id (window a),
                        timer_delay = ms * step_duration nt * 0.9, timer_repeats = False,
                        timer_callback = SeqNoteOff (step_note nt)\<rparr>"
    by (simp add: tracked_def Set_add_def schedule_noteOff_eq)
  ultimately show ?thesis
    using assms by (auto simp: seq_timers_tracked_def list_all_iff schedule_noteOff_eq)
qed

lemma schedule_noteOff_fields [simp]:
  "fired (schedule_noteOff ms nt a) = fired a"
  "synthRef (schedule_noteOff ms nt a) = synthRef a"
  "synth_calls (schedule_noteOff ms nt a) = synth_calls a"
  "store (schedule_noteOff ms nt a) = store a"
  by (simp_all add: schedule_noteOff_eq)

lemma sequencer_tick_cases:
  "state_of (sequencer_tick tid ms ns now a) = tick_advance tid ms ((ns + 1) mod 16) a
   \<or> (\<exists>nt n vel sl. state_of (sequencer_tick tid ms ns now a) =
         schedule_noteOff ms nt (app_noteOn n vel sl now (tick_advance tid ms ((ns + 1) mod 16) a)))"
  by (auto simp: sequencer_tick_def Let_def state_of_def split: option.splits)

lemma sequencer_tick_tracked:
  assumes inv: "seq_timers_tracked a"
      and ref: "tid \<noteq> 0" "sequencerIntervalRef a = Some tid" "effect_has_cleanup a"
  shows "seq_timers_tracked (state_of (sequencer_tick tid ms ns now a))
         \<and> fired (state_of (sequencer_tick tid ms ns now a)) = fired a"
proof -
  let ?a1 = "tick_advance tid ms ((ns + 1) mod 16) a"
  have inv1: "seq_timers_tracked ?a1" by (rule tick_advance_tracked [OF assms])
  from sequencer_tick_cases [of tid ms ns now a] show ?thesis
  proof
    assume "state_of (sequencer_tick tid ms ns now a) = ?a1"
    then show ?thesis using inv1 by simp
  next
    assume "\<exists>nt n vel sl. state_of (sequencer_tick tid ms ns now a) =
         schedule_noteOff ms nt (app_noteOn n vel sl now ?a1)"
    then obtain nt n vel sl where st: "state_of (sequencer_tick tid ms ns now a) =
         schedule_noteOff ms nt (app_noteOn n vel sl now ?a1)" by blast
    have so: "synth_only ?a1 (app_noteOn n vel sl now ?a1)" by (rule app_noteOn_synth_only)
    have "seq_timers_tracked (app_noteOn n vel sl now ?a1)"
      by (rule synth_only_tracked [OF so inv1])
    then have "seq_timers_tracked (schedule_noteOff ms nt (app_noteOn n vel sl now ?a1))"
      by (rule schedule_noteOff_tracked)
    moreover have "fired (schedule_noteOff ms nt (app_noteOn n vel sl now ?a1)) = fired a"
      using so by (simp add: synth_only_def)
    ultimately show ?thesis by (simp only: st)
  qed
qed

text \<open>The note-off timeout's callback, after the timeout has left the queue.\<close>

lemma sequencer_noteOff_timeout_tracked:
  assumes inv: "seq_timers_tracked a"
      and gone: "\<forall>t \<in> set (timers (window a)). timer_id t \<noteq> tid"
  shows "seq_timers_tracked (sequencer_noteOff_timeout tid n now a)"
    and "fired (sequencer_noteOff_timeout tid n now a) = fired a"
proof -
  let ?a1 = "app_noteOff n now a"
  let ?a2 = "sequencer_noteOff_timeout tid n now a"
  have so: "synth_only a ?a1" by (rule app_noteOff_synth_only)
  have inv1: "seq_timers_tracked ?a1" by (rule synth_only_tracked [OF so inv])
  have eq: "?a2 = ?a1\<lparr>pendingNoteOffsRef := Set_delete tid (pendingNoteOffsRef ?a1)\<rparr>"
    by (simp add: sequencer_noteOff_timeout_def Let_def)
  from so obtain ts where ts: "timers (window ?a1) = timers (window a) @ ts"
      and ns: "list_all (\<lambda>t. \<not> is_seq_callback (timer_callback t)) ts"
    by (auto simp: synth_only_def tone_timers_only_def)
  have "tracked ?a2 u" if u: "u \<in> set (timers (window ?a1))" for u
  proof (cases "u \<in> set ts")
    case True
    with ns have "\<not> is_seq_callback (timer_callback u)" by (simp add: list_all_iff)
    then show ?thesis by (rule tracked_other)
  next
    case False
    with u ts have ua: "u \<in> set (timers (window a))" by simp
    with gone have "timer_id u \<noteq> tid" by blast
    moreover from inv1 u have "tracked ?a1 u" by (simp add: seq_timers_tracked_def list_all_iff)
    ultimately show ?thesis
      by (cases "timer_callback u") (auto simp: tracked_def eq Set_delete_def)
  qed
  then show "seq_timers_tracked ?a2"
    using inv1 by (simp add: seq_timers_tracked_def list_all_iff eq)
  show "fired ?a2 = fired a"
    using so by (simp add: eq synth_only_def)
qed

text \<open>A timer fires.\<close>

lemma fire_timer_tracked:
  assumes inv: "seq_timers_tracked a"
  shows "seq_timers_tracked (state_of (fire_timer tid now a))"
proof (cases "find_timer tid (window a)")
  case None
  then show ?thesis using inv by (simp add: fire_timer_def state_of_def)
next
  case (Some t)
  let ?a0 = "a\<lparr>window := (if timer_repeats t then window a else clearTimeout tid (window a)),
               fired := fired a @ [timer_callback t]\<rparr>"
  from find_timer_Some [OF Some] have t: "t \<in> set (timers (window a))" and id: "timer_id t = tid"
    by simp_all
  from inv t have trt: "tracked a t" by (simp add: seq_timers_tracked_def list_all_iff)
  have inv0: "seq_timers_tracked ?a0"
    by (rule seq_timers_tracked_frame [OF _ _ _ _ _ inv]) auto
  show ?thesis
  proof (cases "timer_callback t")
    case (SeqTick ms ns)
    then have "is_tick (timer_callback t)" by simp
    from tracked_tick [OF trt this] id
    have ref: "tid \<noteq> 0" "sequencerIntervalRef ?a0 = Some tid" "effect_has_cleanup ?a0" by simp_all
    have "fire_timer tid now a = sequencer_tick tid ms ns now ?a0"
      using Some SeqTick by (simp add: fire_timer_def Let_def)
    then show ?thesis
      using sequencer_tick_tracked [OF inv0 ref, of ms ns now] by simp
  next
    case (SeqNoteOff n)
    then have "is_noteOff (timer_callback t)" by simp
    from tracked_noteOff [OF trt this] have nr: "\<not> timer_repeats t" by simp
    then have gone: "\<forall>u \<in> set (timers (window ?a0)). timer_id u \<noteq> tid" by simp
    have "fire_timer tid now a = Inr (sequencer_noteOff_timeout tid n now ?a0)"
      using Some SeqNoteOff by (simp add: fire_timer_def Let_def)
    then show ?thesis
      using sequencer_noteOff_timeout_tracked(1) [OF inv0 gone, of n now] by (simp add: state_of_def)
  next
    case (ToneDisposeVoice v)
    then have "state_of (fire_timer tid now a) =
        ?a0\<lparr>synthRef := map_option (tone_dispose_callback v) (synthRef ?a0)\<rparr>"
      using Some by (simp add: fire_timer_def Let_def state_of_def)
    moreover have "same_sequencer ?a0 (?a0\<lparr>synthRef := map_option (tone_dispose_callback v) (synthRef ?a0)\<rparr>)"
      by (simp add: same_sequencer_def)
    ultimately show ?thesis using same_sequencer_tracked [OF _ inv0] by simp
  next
    case ToneStopAllDispose
    then have "state_of (fire_timer tid now a) =
        ?a0\<lparr>synthRef := map_option tone_stopAll_callback (synthRef ?a0)\<rparr>"
      using Some by (simp add: fire_timer_def Let_def state_of_def)
    moreover have "same_sequencer ?a0 (?a0\<lparr>synthRef := map_option tone_stopAll_callback (synthRef ?a0)\<rparr>)"
      by (simp add: same_sequencer_def)
    ultimately show ?thesis using same_sequencer_tracked [OF _ inv0] by simp
  next
    case (WebAudioDeleteNote n)
    then have "state_of (fire_timer tid now a) = ?a0"
      using Some by (simp add: fire_timer_def Let_def state_of_def)
    then show ?thesis using inv0 by simp
  qed
qed

lemma fire_timer_quiet:
  assumes q: "stopped_quiet a"
  shows "stopped_quiet (state_of (fire_timer tid now a))"
    and "\<exists>ext. fired (state_of (fire_timer tid now a)) = fired a @ ext
               \<and> list_all (\<lambda>cb. \<not> is_seq_callback cb) ext"
proof -
  have both: "stopped_quiet (state_of (fire_timer tid now a))
     \<and> (\<exists>ext. fired (state_of (fire_timer tid now a)) = fired a @ ext
               \<and> list_all (\<lambda>cb. \<not> is_seq_callback cb) ext)"
  proof (cases "find_timer tid (window a)")
    case None
    then show ?thesis using q by (simp add: fire_timer_def state_of_def)
  next
    case (Some t)
    let ?a0 = "a\<lparr>window := (if timer_repeats t then window a else clearTimeout tid (window a)),
                 fired := fired a @ [timer_callback t]\<rparr>"
    from find_timer_Some [OF Some] have t: "t \<in> set (timers (window a))" by simp
    from q t have ns: "\<not> is_seq_callback (timer_callback t)"
      by (auto simp: stopped_quiet_def no_seq_timers_def seq_timers_def filter_empty_conv)
    from q have inv: "seq_timers_tracked a" and nos: "no_seq_timers a"
      and nr: "\<not> isSequencerRunning (store a)"
      by (simp_all add: stopped_quiet_def)
    have inv0: "seq_timers_tracked ?a0"
      by (rule seq_timers_tracked_frame [OF _ _ _ _ _ inv]) auto
    have nos0: "no_seq_timers ?a0"
      by (rule no_seq_timers_frame [OF _ nos]) auto
    have st: "same_sequencer ?a0 (state_of (fire_timer tid now a))
              \<and> store (state_of (fire_timer tid now a)) = store ?a0"
    proof (cases "timer_callback t")
      case (ToneDisposeVoice v)
      then have "state_of (fire_timer tid now a) =
          ?a0\<lparr>synthRef := map_option (tone_dispose_callback v) (synthRef ?a0)\<rparr>"
        using Some by (simp add: fire_timer_def Let_def state_of_def)
      then show ?thesis by (simp add: same_sequencer_def)
    next
      case ToneStopAllDispose
      then have "state_of (fire_timer tid now a) =
          ?a0\<lparr>synthRef := map_option tone_stopAll_callback (synthRef ?a0)\<rparr>"
        using Some by (simp add: fire_timer_def Let_def state_of_def)
      then show ?thesis by (simp add: same_sequencer_def)
    next
      case (WebAudioDeleteNote n)
      then have "state_of (fire_timer tid now a) = ?a0"
        using Some by (simp add: fire_timer_def Let_def state_of_def)
      then show ?thesis by (simp add: same_sequencer_def)
    next
      case (SeqTick ms k)
      with ns show ?thesis by simp
    next
      case (SeqNoteOff n)
      with ns show ?thesis by simp
    qed
    then have same: "same_sequencer ?a0 (state_of (fire_timer tid now a))"
      and sto: "store (state_of (fire_timer tid now a)) = store ?a0" by simp_all
    have "stopped_quiet (state_of (fire_timer tid now a))"
      using same_sequencer_tracked [OF same inv0] same_sequencer_no_seq [OF same nos0] nr sto
      by (simp add: stopped_quiet_def)
    moreover have "fired (state_of (fire_timer tid now a)) = fired a @ [timer_callback t]"
      using same by (simp add: same_sequencer_def)
    ultimately show ?thesis using ns by simp
  qed
  from both show "stopped_quiet (state_of (fire_timer tid now a))" by blast
  from both show "\<exists>ext. fired (state_of (fire_timer tid now a)) = fired a @ ext
               \<and> list_all (\<lambda>cb. \<not> is_seq_callback cb) ext" by blast
qed

lemma loadPreset_running:
  "loadPreset name s = Some s' \<Longrightarrow> isSequencerRunning s' = isSequencerRunning s"
  by (auto simp: loadPreset_def split: preset_lookup.splits)

lemma stopAllAudio_no_seq_timers:
  assumes "seq_timers_tracked a" and "no_seq_timers a"
  shows "no_seq_timers (stopAllAudio now a)"
  using stopAllAudio_tracked(2) [OF assms(1), of now] stopAllAudio_no_ticks [of a now] assms(2)
  by (simp add: no_seq_timers_iff)

lemma stopAllAudio_stopped_quiet:
  "stopped_quiet a \<Longrightarrow> stopped_quiet (stopAllAudio now a)"
  using stopAllAudio_tracked(1,6) [of a now] stopAllAudio_no_seq_timers [of a now]
  by (simp add: stopped_quiet_def)

text \<open>Every event keeps the bookkeeping of the sequencer's timers.\<close>

lemma app_event_step_tracked:
  assumes "seq_timers_tracked a" and "app_event_step e a = Some a'"
  shows "seq_timers_tracked a'"
proof (cases e)
  case (Ev_init rnd)
  then obtain s where "a' = a\<lparr>synthRef := Some tone_constructor, store := store_generateRandomSequence rnd s\<rparr>"
    using assms(2) by (auto simp: init_effect_def)
  then have "same_sequencer a a'" by (simp add: same_sequencer_def)
  then show ?thesis using assms(1) by (rule same_sequencer_tracked)
next
  case Ev_paramsEffect
  then have "same_sequencer a a'"
    using assms(2) by (auto simp: same_sequencer_def params_effect_def split: option.splits)
  then show ?thesis using assms(1) by (rule same_sequencer_tracked)
next
  case Ev_stepsEffect
  then have "same_sequencer a a'"
    using assms(2) by (auto simp: same_sequencer_def steps_effect_def)
  then show ?thesis using assms(1) by (rule same_sequencer_tracked)
next
  case (Ev_sequencerEffect now)
  then show ?thesis
    using rerun_sequencer_effect_tracked(1) [OF assms(1)] assms(2) by auto
next
  case (Ev_timer tid now)
  then show ?thesis using fire_timer_tracked [OF assms(1)] assms(2) by auto
next
  case Ev_togglePlay
  then have "same_sequencer a a'" using assms(2) by (auto simp: same_sequencer_def)
  then show ?thesis using assms(1) by (rule same_sequencer_tracked)
next
  case (Ev_keyDown n now)
  have "synth_only a (handleKeyDown n now a)"
    using app_noteOn_synth_only [of a n 1 0 now]
    by (simp add: handleKeyDown_def Let_def synth_only_def setActiveKey_def)
  then show ?thesis using synth_only_tracked assms Ev_keyDown by auto
next
  case (Ev_keyUp n now)
  have "synth_only a (handleKeyUp n now a)"
    using app_noteOff_synth_only [of a n now]
    by (simp add: handleKeyUp_def Let_def synth_only_def setActiveKey_def)
  then show ?thesis using synth_only_tracked assms Ev_keyUp by auto
next
  case (Ev_setParams q)
  then have "same_sequencer a a'" using assms(2) by (auto simp: same_sequencer_def)
  then show ?thesis using assms(1) by (rule same_sequencer_tracked)
next
  case (Ev_stepChange i nt)
  then have "same_sequencer a a'" using assms(2) by (auto simp: same_sequencer_def)
  then show ?thesis using assms(1) by (rule same_sequencer_tracked)
next
  case (Ev_tempoChange bpm)
  then have "same_sequencer a a'" using assms(2) by (auto simp: same_sequencer_def)
  then show ?thesis using assms(1) by (rule same_sequencer_tracked)
next
  case (Ev_clear now)
  let ?a1 = "if synthRef a \<noteq> None \<and> isSequencerRunning (store a) then stopAllAudio now a else a"
  have "seq_timers_tracked ?a1" using stopAllAudio_tracked(1) [OF assms(1)] assms(1) by simp
  moreover have "same_sequencer ?a1 (handleClearSequencer now a)"
    by (simp add: handleClearSequencer_def Let_def same_sequencer_def)
  ultimately show ?thesis using same_sequencer_tracked Ev_clear assms(2) by auto
next
  case (Ev_random rnd now)
  let ?a1 = "if synthRef a \<noteq> None \<and> isSequencerRunning (store a) then stopAllAudio now a else a"
  have "seq_timers_tracked ?a1" using stopAllAudio_tracked(1) [OF assms(1)] assms(1) by simp
  moreover have "same_sequencer ?a1 (handleRandomizeSequencer rnd now a)"
    by (simp add: handleRandomizeSequencer_def Let_def same_sequencer_def)
  ultimately show ?thesis using same_sequencer_tracked Ev_random assms(2) by auto
next
  case (Ev_presetChange name now)
  then obtain s where "a' = (stopAllAudio now a)\<lparr>store := s\<rparr>"
    using assms(2) by (auto simp: handlePresetChange_def Let_def)
  then have "same_sequencer (stopAllAudio now a) a'" by (simp add: same_sequencer_def)
  then show ?thesis using stopAllAudio_tracked(1) [OF assms(1)] by (rule same_sequencer_tracked)
qed

lemma app_run_tracked:
  assumes "seq_timers_tracked a" and "app_run es a = Some a'"
  shows "seq_timers_tracked a'"
  using assms
proof (induction es arbitrary: a)
  case Nil
  then show ?case by simp
next
  case (Cons e es)
  from Cons.prems(2) obtain a1 where s: "app_event_step e a = Some a1" and r: "app_run es a1 = Some a'"
    by (auto split: option.splits)
  show ?case
    by (rule Cons.IH [OF app_event_step_tracked [OF Cons.prems(1) s] r])
qed

lemma initial_App_tracked: "seq_timers_tracked initial_App"
  by (simp add: seq_timers_tracked_def initial_App_def empty_browser_def)

lemma quiet_stepI:
  "stopped_quiet a' \<Longrightarrow> fired a' = fired a \<Longrightarrow> quiet_step a a'"
  by (simp add: quiet_step_def)

lemma same_sequencer_quiet:
  assumes "same_sequencer a a'" and "isSequencerRunning (store a') = isSequencerRunning (store a)"
      and "stopped_quiet a"
  shows "quiet_step a a'"
  using same_sequencer_tracked [OF assms(1)] same_sequencer_no_seq [OF assms(1)] assms
  by (auto simp: stopped_quiet_def quiet_step_def same_sequencer_def)

lemma app_event_step_quiet:
  assumes q: "stopped_quiet a" and e: "e \<noteq> Ev_togglePlay" and s: "app_event_step e a = Some a'"
  shows "quiet_step a a'"
proof (cases e)
  case (Ev_init rnd)
  then obtain s0 where l: "loadPreset ''bassDeep'' (store a) = Some s0"
      and a': "a' = a\<lparr>synthRef := Some tone_constructor, store := store_generateRandomSequence rnd s0\<rparr>"
    using s by (auto simp: init_effect_def)
  have "same_sequencer a a'" using a' by (simp add: same_sequencer_def)
  moreover have "isSequencerRunning (store a') = isSequencerRunning (store a)"
    using a' loadPreset_running [OF l] by (simp add: store_generateRandomSequence_def)
  ultimately show ?thesis using q by (rule same_sequencer_quiet)
next
  case Ev_paramsEffect
  then have "same_sequencer a a'" "isSequencerRunning (store a') = isSequencerRunning (store a)"
    using s by (auto simp: same_sequencer_def params_effect_def split: option.splits)
  then show ?thesis using q by (rule same_sequencer_quiet)
next
  case Ev_stepsEffect
  then have "same_sequencer a a'" "isSequencerRunning (store a') = isSequencerRunning (store a)"
    using s by (auto simp: same_sequencer_def steps_effect_def)
  then show ?thesis using q by (rule same_sequencer_quiet)
next
  case (Ev_sequencerEffect now)
  from q have inv: "seq_timers_tracked a" and nr: "\<not> isSequencerRunning (store a)"
    by (simp_all add: stopped_quiet_def)
  have "stopped_quiet (rerun_sequencer_effect now a)"
    using rerun_sequencer_effect_tracked(3) [OF inv] nr by simp
  moreover have "fired (rerun_sequencer_effect now a) = fired a"
    by (rule rerun_sequencer_effect_tracked(2) [OF inv])
  ultimately show ?thesis using Ev_sequencerEffect s by (auto intro: quiet_stepI)
next
  case (Ev_timer tid now)
  then show ?thesis using fire_timer_quiet [OF q, of tid now] s by (auto simp: quiet_step_def)
next
  case Ev_togglePlay
  with e show ?thesis by simp
next
  case (Ev_keyDown n now)
  have so: "synth_only a (handleKeyDown n now a)"
    using app_noteOn_synth_only [of a n 1 0 now]
    by (simp add: handleKeyDown_def Let_def synth_only_def setActiveKey_def)
  then have "fired (handleKeyDown n now a) = fired a" by (simp add: synth_only_def)
  then show ?thesis using synth_only_stopped_quiet [OF so q] Ev_keyDown s by (auto intro: quiet_stepI)
next
  case (Ev_keyUp n now)
  have so: "synth_only a (handleKeyUp n now a)"
    using app_noteOff_synth_only [of a n now]
    by (simp add: handleKeyUp_def Let_def synth_only_def setActiveKey_def)
  then have "fired (handleKeyUp n now a) = fired a" by (simp add: synth_only_def)
  then show ?thesis using synth_only_stopped_quiet [OF so q] Ev_keyUp s by (auto intro: quiet_stepI)
next
  case (Ev_setParams p)
  then have "same_sequencer a a'" "isSequencerRunning (store a') = isSequencerRunning (store a)"
    using s by (auto simp: same_sequencer_def setParams_def)
  then show ?thesis using q by (rule same_sequencer_quiet)
next
  case (Ev_stepChange i nt)
  then have "same_sequencer a a'" "isSequencerRunning (store a') = isSequencerRunning (store a)"
    using s by (auto simp: same_sequencer_def setSequencerStep_def)
  then show ?thesis using q by (rule same_sequencer_quiet)
next
  case (Ev_tempoChange bpm)
  then have "same_sequencer a a'" "isSequencerRunning (store a') = isSequencerRunning (store a)"
    using s by (auto simp: same_sequencer_def setTempo_def)
  then show ?thesis using q by (rule same_sequencer_quiet)
next
  case (Ev_clear now)
  from q have "\<not> isSequencerRunning (store a)" by (simp add: stopped_quiet_def)
  then have "a' = a\<lparr>store := clearSequencer (store a)\<rparr>"
    using Ev_clear s by (auto simp: handleClearSequencer_def)
  then have "same_sequencer a a'" "isSequencerRunning (store a') = isSequencerRunning (store a)"
    by (simp_all add: same_sequencer_def clearSequencer_def)
  then show ?thesis using q by (rule same_sequencer_quiet)
next
  case (Ev_random rnd now)
  from q have "\<not> isSequencerRunning (store a)" by (simp add: stopped_quiet_def)
  then have "a' = a\<lparr>store := store_generateRandomSequence rnd (store a)\<rparr>"
    using Ev_random s by (auto simp: handleRandomizeSequencer_def)
  then have "same_sequencer a a'" "isSequencerRunning (store a') = isSequencerRunning (store a)"
    by (simp_all add: same_sequencer_def store_generateRandomSequence_def)
  then show ?thesis using q by (rule same_sequencer_quiet)
next
  case (Ev_presetChange name now)
  let ?b = "stopAllAudio now a"
  from Ev_presetChange obtain s0 where l: "loadPreset name (store ?b) = Some s0"
      and a': "a' = ?b\<lparr>store := s0\<rparr>"
    using s by (auto simp: handlePresetChange_def Let_def)
  have qb: "stopped_quiet ?b" by (rule stopAllAudio_stopped_quiet [OF q])
  have "same_sequencer ?b a'" using a' by (simp add: same_sequencer_def)
  moreover have "isSequencerRunning (store a') = isSequencerRunning (store ?b)"
    using a' loadPreset_running [OF l] by simp
  ultimately have "quiet_step ?b a'" using qb by (rule same_sequencer_quiet)
  moreover have "fired ?b = fired a"
    using q stopAllAudio_tracked(7) [of a now] by (simp add: stopped_quiet_def)
  ultimately show ?thesis by (simp add: quiet_step_def)
qed

lemma quiet_step_trans: "quiet_step a a' \<Longrightarrow> quiet_step a' a'' \<Longrightarrow> quiet_step a a''"
  by (auto simp: quiet_step_def)

lemma app_run_quiet:
  assumes "stopped_quiet a" and "Ev_togglePlay \<notin> set es" and "app_run es a = Some a'"
  shows "quiet_step a a'"
  using assms
proof (induction es arbitrary: a)
  case Nil
  then show ?case by (simp add: quiet_step_def)
next
  case (Cons e es)
  from Cons.prems(3) obtain a1 where s: "app_event_step e a = Some a1" and r: "app_run es a1 = Some a'"
    by (auto split: option.splits)
  from Cons.prems(2) have ne: "e \<noteq> Ev_togglePlay" and nes: "Ev_togglePlay \<notin> set es" by auto
  have q1: "quiet_step a a1" by (rule app_event_step_quiet [OF Cons.prems(1) ne s])
  then have "stopped_quiet a1" by (simp add: quiet_step_def)
  from Cons.IH [OF this nes r] q1 show ?case by (blast intro: quiet_step_trans)
qed

lemma app_stopAllNotes_calls:
  "synth_calls (app_stopAllNotes now a) =
     synth_calls a @ (if synthRef a = None then [] else [Call_stopAllNotes])"
  by (auto simp: app_stopAllNotes_def split: option.splits prod.splits)

lemma app_noteOff_calls:
  "synth_calls (app_noteOff n now a) =
     synth_calls a @ (if synthRef a = None then [] else [Call_noteOff n])"
  by (auto simp: app_noteOff_def split: option.splits prod.splits)

lemma release_key_calls:
  "synth_calls (release_key now k a) =
     synth_calls a @ (if synthRef a = None then [] else [Call_noteOff k])"
  by (simp add: release_key_def Let_def app_noteOff_calls)

lemma fold_release_key_calls:
  "synth_calls (fold (release_key now) ks a) =
     synth_calls a @ (if synthRef a = None then [] else map Call_noteOff ks)"
proof (induction ks arbitrary: a)
  case Nil
  then show ?case by simp
next
  case (Cons k ks)
  have "(synthRef (release_key now k a) = None) = (synthRef a = None)"
    using release_key_synth_only [of a now k] by (simp add: synth_only_def)
  then show ?case
    by (simp add: Cons.IH release_key_calls)
qed

lemma stopAllAudio_calls:
  "synth_calls (stopAllAudio now a) =
     synth_calls a @ (if synthRef a = None then []
                      else Call_stopAllNotes # map Call_noteOff (activeKeys (store a)))"
proof -
  have "(synthRef (app_stopAllNotes now (cancel_pending a)) = None) = (synthRef a = None)"
    using app_stopAllNotes_synth_only [of "cancel_pending a" now] by (simp add: synth_only_def)
  then show ?thesis
    by (simp add: stopAllAudio_eq fold_release_key_calls app_stopAllNotes_calls)
qed

lemma sequencer_effect_cleanup_fields [simp]:
  "synthRef (sequencer_effect_cleanup a) = synthRef a"
  "synth_calls (sequencer_effect_cleanup a) = synth_calls a"
  by (simp_all add: sequencer_effect_cleanup_eq)

lemma stop_sequencer_calls:
  "synth_calls (stop_sequencer now a) =
     synth_calls a @ (if synthRef a = None then []
                      else Call_stopAllNotes # map Call_noteOff (activeKeys (store a)))"
  by (simp add: stop_sequencer_def rerun_sequencer_effect_def sequencer_effect_def
      setIsSequencerRunning_def stopAllAudio_calls sequencer_effect_cleanup_tracked(4)
      sequencer_effect_cleanup_eq)

lemma noteOff_schedule_append:
  "timers b' = timers b @ ts \<Longrightarrow>
   noteOff_schedule b' = noteOff_schedule b @ noteOff_schedule (b\<lparr>timers := ts\<rparr>)"
  by (simp add: noteOff_schedule_def)

lemma noteOff_schedule_nonseq:
  "list_all (\<lambda>t. \<not> is_seq_callback (timer_callback t)) ts \<Longrightarrow> noteOff_schedule (b\<lparr>timers := ts\<rparr>) = []"
proof (induction ts)
  case Nil
  then show ?case by (simp add: noteOff_schedule_def)
next
  case (Cons t ts)
  then show ?case
    by (cases "timer_callback t") (simp_all add: noteOff_schedule_def noteOff_entry_def)
qed

lemma synth_only_noteOff_schedule:
  "synth_only a a' \<Longrightarrow> noteOff_schedule (window a') = noteOff_schedule (window a)"
  by (auto simp: synth_only_def tone_timers_only_def noteOff_schedule_append noteOff_schedule_nonseq)

lemma set_closure_noteOff_schedule:
  "noteOff_schedule (set_closure tid (SeqTick ms ns) b) = noteOff_schedule b"
proof -
  have "noteOff_entry (if timer_id t = tid \<and> timer_repeats t
                       then t\<lparr>timer_callback := SeqTick ms ns\<rparr> else t) = noteOff_entry t" for t
    by (cases "timer_callback t") (auto simp: noteOff_entry_def)
  then show ?thesis
    by (simp add: noteOff_schedule_def set_closure_def comp_def)
qed

lemma schedule_noteOff_schedule:
  "noteOff_schedule (window (schedule_noteOff ms nt a)) =
     noteOff_schedule (window a) @ [(step_note nt, ms * step_duration nt * 0.9)]"
  by (simp add: schedule_noteOff_eq noteOff_schedule_def noteOff_entry_def)

lemma find_map_same:
  assumes "\<And>x. P (g x) = P x"
  shows "find P (map g xs) = map_option g (find P xs)"
  using assms by (induction xs) auto

lemma find_append_Some: "find P xs = Some x \<Longrightarrow> find P (xs @ ys) = Some x"
  by (induction xs) auto

lemma find_timer_set_closure:
  assumes "find_timer tid b = Some t" and "timer_repeats t"
  shows "find_timer tid (set_closure tid cb b) = Some (t\<lparr>timer_callback := cb\<rparr>)"
proof -
  let ?g = "\<lambda>t. if timer_id t = tid \<and> timer_repeats t then t\<lparr>timer_callback := cb\<rparr> else t"
  have "find (\<lambda>t. timer_id t = tid) (map ?g (timers b)) = map_option ?g (find (\<lambda>t. timer_id t = tid) (timers b))"
    by (rule find_map_same) simp
  moreover have "timer_id t = tid" using find_timer_Some [OF assms(1)] by simp
  ultimately show ?thesis
    using assms by (simp add: find_timer_def set_closure_def)
qed

lemma find_timer_append:
  "find_timer tid b = Some t \<Longrightarrow> timers b' = timers b @ ts \<Longrightarrow> find_timer tid b' = Some t"
  by (simp add: find_timer_def find_append_Some)

lemma synth_only_find_timer:
  "synth_only a a' \<Longrightarrow> find_timer tid (window a) = Some t \<Longrightarrow> find_timer tid (window a') = Some t"
  by (auto simp: synth_only_def tone_timers_only_def intro: find_timer_append)

lemma app_noteOn_calls:
  "synth_calls (app_noteOn n vel sl now a) =
     synth_calls a @ (if synthRef a = None then [] else [Call_noteOn n vel sl])"
  by (auto simp: app_noteOn_def split: option.splits prod.splits)

lemma app_noteOn_store [simp]: "store (app_noteOn n vel sl now a) = store a"
  by (auto simp: app_noteOn_def split: option.splits prod.splits)

lemma app_noteOn_pending [simp]: "pendingNoteOffsRef (app_noteOn n vel sl now a) = pendingNoteOffsRef a"
  using app_noteOn_synth_only [of a n vel sl now] by (simp add: synth_only_def)

section \<open>An example run of the sequencer\<close>

text \<open>
  The run \<open>preparing\<close> mounts the component, sets the tempo to 120, puts the note 60 at
  index 1 of the pattern and presses play; \<open>started_App\<close> is the state after the
  sequencer effect has run, \<open>playing_App\<close> the state after the first tick.
\<close>

lemma app_run_append:
  "app_run (es @ es') a = (case app_run es a of None \<Rightarrow> None | Some a' \<Rightarrow> app_run es' a')"
  by (induction es arbitrary: a) (auto split: option.splits)

lemma loadPreset_bassDeep:
  "loadPreset ''bassDeep'' s =
     Some (s\<lparr>params := preset_params preset_bassDeep, tempo := preset_tempo preset_bassDeep,
              sequencerSteps := preset_sequencerSteps preset_bassDeep, currentStep := 0,
              currentPreset := ''bassDeep''\<rparr>)"
  by (simp add: loadPreset_def PRESETS_def)

lemma app_event_step_defined:
  assumes "\<And>name now. e \<noteq> Ev_presetChange name now"
  shows "\<exists>a'. app_event_step e a = Some a'"
  using assms by (cases e) (auto simp: init_effect_def loadPreset_bassDeep)

lemma app_run_defined:
  "(\<And>name now. Ev_presetChange name now \<notin> set es) \<Longrightarrow> \<exists>a'. app_run es a = Some a'"
proof (induction es arbitrary: a)
  case Nil
  then show ?case by simp
next
  case (Cons e es)
  then obtain a1 where "app_event_step e a = Some a1"
    using app_event_step_defined [of e a] by auto
  then show ?case using Cons by simp
qed

lemma generateRandomSequence_draws_half:
  "generateRandomSequence draws_half = replicate 16 (SequencerStep 30 0.8 0.75 False True)"
  by (simp add: generateRandomSequence_def random_step_def draws_half_def SequencerStep_def numeral_eq_Suc)

lemma prepared_run:
  "app_run preparing initial_App =
     Some (initial_App
       \<lparr>synthRef := Some tone_constructor,
        store := initial_store
          \<lparr>sequencerSteps := (replicate 16 (SequencerStep 30 0.8 0.75 False True))[1 := Some some_step],
           tempo := 120, isSequencerRunning := True\<rparr>,
        sequencerStepsRef := (replicate 16 (SequencerStep 30 0.8 0.75 False True))[1 := Some some_step]\<rparr>)"
  by (simp add: preparing_def init_effect_def loadPreset_bassDeep store_generateRandomSequence_def
      generateRandomSequence_draws_half setTempo_def setSequencerStep_def array_set_def steps_effect_def
      setIsSequencerRunning_def initial_App_def initial_store_def)

lemma prepared_App_fields:
  "isSequencerRunning (store prepared_App)"
  "tempo (store prepared_App) = 120"
  "currentStep (store prepared_App) = 0"
  "synthRef prepared_App = Some tone_constructor"
  "array_get (sequencerStepsRef prepared_App) 1 = Some some_step"
  "window prepared_App = empty_browser"
  "\<not> effect_has_cleanup prepared_App"
  "synth_calls prepared_App = []"
  "fired prepared_App = []"
  "pendingNoteOffsRef prepared_App = []"
  "activeKeys (store prepared_App) = []"
  unfolding prepared_App_def prepared_run
  by (simp_all add: initial_App_def initial_store_def array_get_def)

lemma started_App_eq: "started_App = sequencer_effect 0 prepared_App"
proof -
  have "app_run preparing initial_App = Some prepared_App"
    unfolding prepared_App_def prepared_run by simp
  then show ?thesis
    using prepared_App_fields(7)
    by (simp add: started_App_def app_run_append rerun_sequencer_effect_def)
qed

lemma started_App_fields:
  "window started_App =
     \<lparr>timers = [\<lparr>timer_id = 1, timer_delay = 125, timer_repeats = True,
                  timer_callback = SeqTick 125 0\<rparr>], next_timer_id = 2\<rparr>"
  "currentStep (store started_App) = 0"
  "synthRef started_App = Some tone_constructor"
  "array_get (sequencerStepsRef started_App) 1 = Some some_step"
  "synth_calls started_App = []"
  "fired started_App = []"
  "pendingNoteOffsRef started_App = []"
  "activeKeys (store started_App) = []"
  using prepared_App_fields
  by (simp_all add: started_App_eq sequencer_effect_def setInterval_def new_timer_def Let_def
      empty_browser_def)

lemma playing_App_eq: "playing_App = state_of (fire_timer 1 1 started_App)"
proof -
  obtain a where a: "app_run (preparing @ [Ev_sequencerEffect 0]) initial_App = Some a"
    using app_run_defined [of "preparing @ [Ev_sequencerEffect 0]" initial_App]
    by (auto simp: preparing_def)
  then have "started_App = a" by (simp add: started_App_def)
  moreover have "app_run (preparing @ [Ev_sequencerEffect 0, Ev_timer 1 1]) initial_App =
      Some (state_of (fire_timer 1 1 a))"
    using a app_run_append [of "preparing @ [Ev_sequencerEffect 0]" "[Ev_timer 1 1]" initial_App]
    by simp
  ultimately show ?thesis by (simp add: playing_App_def)
qed

lemma find_timer_started:
  "find_timer 1 (window started_App) =
     Some \<lparr>timer_id = 1, timer_delay = 125, timer_repeats = True, timer_callback = SeqTick 125 0\<rparr>"
  by (simp add: started_App_fields find_timer_def)

lemma playing_App_timers:
  "map timer_callback (timers (window playing_App)) = [SeqTick 125 1, SeqNoteOff 60]"
  unfolding playing_App_eq
  using started_App_fields
  by (simp add: fire_timer_def find_timer_def sequencer_tick_def tick_advance_def set_closure_def
      schedule_noteOff_def app_noteOn_def setTimeout_def new_timer_def Let_def state_of_def
      some_step_def setCurrentStep_def tone_constructor_def Set_has_def split_beta)

lemma playing_App_seq_timers: "\<not> no_seq_timers playing_App"
  using playing_App_timers
  by (auto simp: no_seq_timers_def seq_timers_def filter_empty_conv)

lemma playing_App_run:
  "app_run (preparing @ [Ev_sequencerEffect 0, Ev_timer 1 1]) initial_App = Some playing_App"
proof -
  obtain a where "app_run (preparing @ [Ev_sequencerEffect 0, Ev_timer 1 1]) initial_App = Some a"
    using app_run_defined [of "preparing @ [Ev_sequencerEffect 0, Ev_timer 1 1]" initial_App]
    by (auto simp: preparing_def)
  then show ?thesis by (simp add: playing_App_def)
qed

lemma playing_App_fields:
  "fired playing_App = [SeqTick 125 0]"
  "synth_calls playing_App = [Call_noteOn 60 1 0]"
  "synthRef playing_App \<noteq> None"
  "activeKeys (store playing_App) = []"
  unfolding playing_App_eq
  using started_App_fields prepared_App_fields
  by (simp_all add: fire_timer_def find_timer_def sequencer_tick_def tick_advance_def set_closure_def
      schedule_noteOff_def app_noteOn_def setTimeout_def new_timer_def Let_def state_of_def
      some_step_def setCurrentStep_def tone_constructor_def Set_has_def split_beta)

text \<open>
  The current step is a dependency of the sequencer effect. When React re-runs the effect
  after the first tick of the example run, the cleanup clears the interval and the
  note-off timeout the tick has just registered, and the body registers a new interval
  that holds the new step.
\<close>

lemma playing_App_clock:
  "timers (window playing_App) =
     [\<lparr>timer_id = 1, timer_delay = 125, timer_repeats = True, timer_callback = SeqTick 125 1\<rparr>,
      \<lparr>timer_id = 2, timer_delay = 112.5, timer_repeats = False, timer_callback = SeqNoteOff 60\<rparr>]"
  "pendingNoteOffsRef playing_App = [2]"
  "sequencerIntervalRef playing_App = Some 1"
  "effect_has_cleanup playing_App"
  "isSequencerRunning (store playing_App)"
  "tempo (store playing_App) = 120"
  "currentStep (store playing_App) = 1"
  "next_timer_id (window playing_App) = 3"
  unfolding playing_App_eq
  using started_App_fields prepared_App_fields
  by (simp_all add: started_App_eq fire_timer_def find_timer_def sequencer_tick_def tick_advance_def set_closure_def
      schedule_noteOff_def app_noteOn_def setTimeout_def new_timer_def Let_def state_of_def
      some_step_def setCurrentStep_def tone_constructor_def Set_has_def Set_add_def split_beta
      sequencer_effect_def setInterval_def empty_browser_def)

lemma rerun_cancels_pending_noteOff:
  "timers (window (rerun_sequencer_effect now playing_App)) =
     [\<lparr>timer_id = 3, timer_delay = 125, timer_repeats = True, timer_callback = SeqTick 125 1\<rparr>]
   \<and> pendingNoteOffsRef (rerun_sequencer_effect now playing_App) = []"
  using playing_App_clock
  by (simp add: rerun_sequencer_effect_def sequencer_effect_cleanup_def clear_sequencer_interval_def
      sequencer_effect_def setInterval_def new_timer_def clearTimeout_def clearInterval_def Let_def split_beta)

section \<open>A tick of the sequencer\<close>

text \<open>
  What the sequencer effect and a tick do. The effect of a running sequencer registers an
  interval whose period is \<^verbatim>\<open>(60000 / tempo) / 4\<close> ms (125 ms at tempo 120) and whose step
  is the current step. When that interval fires, with a synthesizer present and a step
  defined at the next index: the current step becomes \<open>(currentStep + 1) mod 16\<close>, and so
  does the step the interval holds; exactly when the step at the new index is enabled and
  has a note above 0, \<^verbatim>\<open>noteOn(note, velocity, slide ? 0.3 : 0)\<close> is called, and one
  note-off timeout for that note is registered with delay \<^verbatim>\<open>stepPeriod * duration * 0.9\<close>
  ms; otherwise no call is made and no timeout registered.
\<close>

lemma sequencer_tick_effects:
  assumes run: "isSequencerRunning (store a0)"
      and tm: "find_timer tid (window a) = Some t"
      and cb: "timer_callback t = SeqTick stepMs (currentStep (store a))"
      and rep: "timer_repeats t"
      and syn: "synthRef a \<noteq> None"
      and stp: "array_get (sequencerStepsRef a) ((currentStep (store a) + 1) mod 16) = Some nt"
  shows "timers (window (sequencer_effect now0 a0)) =
           timers (window a0) @
             [\<lparr>timer_id = next_timer_id (window a0), timer_delay = (60000 / tempo (store a0)) / 4,
               timer_repeats = True,
               timer_callback = SeqTick ((60000 / tempo (store a0)) / 4) (currentStep (store a0))\<rparr>]
         \<and> (if tempo (store a0) = 120
             then timer_delay (last (timers (window (sequencer_effect now0 a0)))) = 125 else True)
         \<and> fire_timer tid now a = Inr (state_of (fire_timer tid now a))
         \<and> currentStep (store (state_of (fire_timer tid now a))) = (currentStep (store a) + 1) mod 16
         \<and> map_option timer_callback (find_timer tid (window (state_of (fire_timer tid now a)))) =
             Some (SeqTick stepMs ((currentStep (store a) + 1) mod 16))
         \<and> synth_calls (state_of (fire_timer tid now a)) =
             synth_calls a @
               (if step_enabled nt \<and> step_note nt > 0
                then [Call_noteOn (step_note nt) (step_velocity nt) (if step_slide nt then 0.3 else 0)]
                else [])
         \<and> noteOff_schedule (window (state_of (fire_timer tid now a))) =
             noteOff_schedule (window a) @
               (if step_enabled nt \<and> step_note nt > 0
                then [(step_note nt, stepMs * step_duration nt * 0.9)]
                else [])
         \<and> fired (state_of (fire_timer tid now a)) = fired a @ [SeqTick stepMs (currentStep (store a))]"
proof -
  let ?ns = "(currentStep (store a) + 1) mod 16"
  let ?a0 = "a\<lparr>window := window a, fired := fired a @ [timer_callback t]\<rparr>"
  let ?a1 = "tick_advance tid stepMs ?ns ?a0"
  have start: "timers (window (sequencer_effect now0 a0)) =
           timers (window a0) @
             [\<lparr>timer_id = next_timer_id (window a0), timer_delay = (60000 / tempo (store a0)) / 4,
               timer_repeats = True,
               timer_callback = SeqTick ((60000 / tempo (store a0)) / 4) (currentStep (store a0))\<rparr>]"
    using run by (simp add: sequencer_effect_def setInterval_def new_timer_def Let_def)
  have t120: "tempo (store a0) = 120 \<Longrightarrow>
      timer_delay (last (timers (window (sequencer_effect now0 a0)))) = 125"
    by (simp add: start)
  have fire: "fire_timer tid now a = sequencer_tick tid stepMs (currentStep (store a)) now ?a0"
    using tm cb rep by (simp add: fire_timer_def Let_def)
  have step1: "array_get (sequencerStepsRef ?a1) ?ns = Some nt" using stp by simp
  have syn1: "synthRef ?a1 \<noteq> None" using syn by simp
  have ft1: "find_timer tid (window ?a1) = Some (t\<lparr>timer_callback := SeqTick stepMs ?ns\<rparr>)"
    using find_timer_set_closure [OF tm rep] by (simp add: tick_advance_def)
  have ns1: "noteOff_schedule (window ?a1) = noteOff_schedule (window a)"
    by (simp add: tick_advance_def set_closure_noteOff_schedule)
  show ?thesis
  proof (cases "step_enabled nt \<and> step_note nt > 0")
    case False
    then have st: "sequencer_tick tid stepMs (currentStep (store a)) now ?a0 = Inr ?a1"
      using step1 by (auto simp: sequencer_tick_def Let_def)
    then have s: "state_of (fire_timer tid now a) = ?a1" by (simp add: fire state_of_def)
    show ?thesis
      unfolding s using start t120 False ft1 ns1 cb st fire by simp
  next
    case True
    let ?sl = "if step_slide nt then 0.3 else 0"
    let ?a2 = "app_noteOn (step_note nt) (step_velocity nt) ?sl now ?a1"
    let ?a3 = "schedule_noteOff stepMs nt ?a2"
    have st: "sequencer_tick tid stepMs (currentStep (store a)) now ?a0 = Inr ?a3"
      using step1 syn1 True by (simp add: sequencer_tick_def Let_def)
    then have s: "state_of (fire_timer tid now a) = ?a3" by (simp add: fire state_of_def)
    have so: "synth_only ?a1 ?a2" by (rule app_noteOn_synth_only)
    have ft2: "find_timer tid (window ?a2) = Some (t\<lparr>timer_callback := SeqTick stepMs ?ns\<rparr>)"
      by (rule synth_only_find_timer [OF so ft1])
    have ft3: "find_timer tid (window ?a3) = Some (t\<lparr>timer_callback := SeqTick stepMs ?ns\<rparr>)"
      by (rule find_timer_append [OF ft2]) (simp add: schedule_noteOff_eq)
    have ns3: "noteOff_schedule (window ?a3) =
        noteOff_schedule (window a) @ [(step_note nt, stepMs * step_duration nt * 0.9)]"
      using synth_only_noteOff_schedule [OF so] ns1 by (simp add: schedule_noteOff_schedule)
    have calls: "synth_calls ?a3 = synth_calls a @
        [Call_noteOn (step_note nt) (step_velocity nt) ?sl]"
      using syn1 by (simp add: app_noteOn_calls)
    have cur: "currentStep (store ?a3) = ?ns" by simp
    have fr: "fired ?a3 = fired a @ [SeqTick stepMs (currentStep (store a))]"
      using so cb by (simp add: synth_only_def)
    show ?thesis
      unfolding s using start t120 True ft3 ns3 calls cur fr st fire by simp
  qed
qed

text \<open>
  The first tick of the example run: the interval has period 125 ms, the current step
  becomes 1, \<^verbatim>\<open>noteOn(60, 1, 0)\<close> is called and the note-off for 60 is due after
  112.5 ms.
\<close>

lemma first_tick_example:
  "timers (window started_App) =
     [\<lparr>timer_id = 1, timer_delay = 125, timer_repeats = True, timer_callback = SeqTick 125 0\<rparr>]
   \<and> fire_timer 1 1 started_App = Inr playing_App
   \<and> currentStep (store playing_App) = 1
   \<and> map_option timer_callback (find_timer 1 (window playing_App)) = Some (SeqTick 125 1)
   \<and> synth_calls playing_App = [Call_noteOn 60 1 0]
   \<and> noteOff_schedule (window playing_App) = [(60, 112.5)]
   \<and> fired playing_App = [SeqTick 125 0]"
proof -
  let ?t = "\<lparr>timer_id = 1, timer_delay = 125, timer_repeats = True, timer_callback = SeqTick 125 0\<rparr>"
  have tm: "find_timer 1 (window started_App) = Some ?t"
    by (simp add: started_App_fields find_timer_def)
  have cb: "timer_callback ?t = SeqTick 125 (currentStep (store started_App))"
    by (simp add: started_App_fields)
  have rep: "timer_repeats ?t" by simp
  have syn: "synthRef started_App \<noteq> None" by (simp add: started_App_fields)
  have stp: "array_get (sequencerStepsRef started_App) ((currentStep (store started_App) + 1) mod 16)
      = Some some_step"
    using started_App_fields by simp
  have ns0: "noteOff_schedule (window started_App) = []"
    by (simp add: started_App_fields noteOff_schedule_def noteOff_entry_def)
  from sequencer_tick_effects [OF prepared_App_fields(1) tm cb rep syn stp, of 0 1]
  show ?thesis
    unfolding playing_App_eq
    by (simp add: started_App_eq [symmetric] started_App_fields
        prepared_App_fields empty_browser_def noteOff_schedule_def noteOff_entry_def some_step_def)
qed

section \<open>A tick and the commit that follows it\<close>

text \<open>
  A tick changes the current step, which is a dependency of the sequencer effect: React
  runs the cleanup of the effect and its body again. The cleanup clears the interval and
  every timeout in \<^verbatim>\<open>pendingNoteOffsRef\<close>; the body of a running sequencer registers a new
  interval.
\<close>

lemma no_noteOffs_schedule:
  "list_all (\<lambda>t. \<not> is_noteOff (timer_callback t)) (timers b) \<Longrightarrow> noteOff_schedule b = []"
  unfolding noteOff_schedule_def
  by (induction "timers b" arbitrary: b)
     (auto simp: noteOff_entry_def list_all_iff split: timer_action.splits)

lemma fire_tick_frame:
  assumes tm: "find_timer tid (window a) = Some t"
      and cb: "timer_callback t = SeqTick stepMs ns"
      and rep: "timer_repeats t"
  shows "store (state_of (fire_timer tid now a)) = setCurrentStep ((ns + 1) mod 16) (store a)"
    and "effect_has_cleanup (state_of (fire_timer tid now a)) = effect_has_cleanup a"
    and "(synthRef (state_of (fire_timer tid now a)) = None) = (synthRef a = None)"
proof -
  let ?a0 = "a\<lparr>window := window a, fired := fired a @ [timer_callback t]\<rparr>"
  let ?a1 = "tick_advance tid stepMs ((ns + 1) mod 16) ?a0"
  have fire: "fire_timer tid now a = sequencer_tick tid stepMs ns now ?a0"
    using tm cb rep by (simp add: fire_timer_def Let_def)
  have a1: "store ?a1 = setCurrentStep ((ns + 1) mod 16) (store a)"
      "effect_has_cleanup ?a1 = effect_has_cleanup a"
      "synthRef ?a1 = synthRef a"
    by (simp_all add: tick_advance_def)
  from sequencer_tick_cases [of tid stepMs ns now ?a0]
  have "store (state_of (fire_timer tid now a)) = setCurrentStep ((ns + 1) mod 16) (store a)
      \<and> effect_has_cleanup (state_of (fire_timer tid now a)) = effect_has_cleanup a
      \<and> (synthRef (state_of (fire_timer tid now a)) = None) = (synthRef a = None)"
  proof
    assume "state_of (sequencer_tick tid stepMs ns now ?a0) = ?a1"
    then show ?thesis using a1 by (simp add: fire)
  next
    assume "\<exists>nt n vel sl. state_of (sequencer_tick tid stepMs ns now ?a0) =
         schedule_noteOff stepMs nt (app_noteOn n vel sl now ?a1)"
    then obtain nt n vel sl where st: "state_of (sequencer_tick tid stepMs ns now ?a0) =
         schedule_noteOff stepMs nt (app_noteOn n vel sl now ?a1)" by blast
    have so: "synth_only ?a1 (app_noteOn n vel sl now ?a1)" by (rule app_noteOn_synth_only)
    then have "effect_has_cleanup (app_noteOn n vel sl now ?a1) = effect_has_cleanup a"
        and "(synthRef (app_noteOn n vel sl now ?a1) = None) = (synthRef a = None)"
      using a1 by (simp_all add: synth_only_def)
    then show ?thesis using a1 st by (simp add: fire schedule_noteOff_eq)
  qed
  then show "store (state_of (fire_timer tid now a)) = setCurrentStep ((ns + 1) mod 16) (store a)"
    and "effect_has_cleanup (state_of (fire_timer tid now a)) = effect_has_cleanup a"
    and "(synthRef (state_of (fire_timer tid now a)) = None) = (synthRef a = None)"
    by simp_all
qed

lemma fire_noteOff_calls:
  assumes "find_timer k (window a) = Some u"
      and "timer_callback u = SeqNoteOff n"
      and "synthRef a \<noteq> None"
  shows "synth_calls (state_of (fire_timer k now a)) = synth_calls a @ [Call_noteOff n]"
  using assms
  by (simp add: fire_timer_def Let_def state_of_def sequencer_noteOff_timeout_def app_noteOff_calls)

lemma rerun_running:
  assumes inv: "seq_timers_tracked a"
      and cl: "effect_has_cleanup a"
      and run: "isSequencerRunning (store a)"
  shows "timers (window (rerun_sequencer_effect now a)) =
           timers (window (sequencer_effect_cleanup a)) @
             [\<lparr>timer_id = next_timer_id (window a), timer_delay = (60000 / tempo (store a)) / 4,
               timer_repeats = True,
               timer_callback = SeqTick ((60000 / tempo (store a)) / 4) (currentStep (store a))\<rparr>]"
    and "no_seq_timers (sequencer_effect_cleanup a)"
    and "pendingNoteOffsRef (rerun_sequencer_effect now a) = []"
    and "sequencerIntervalRef (rerun_sequencer_effect now a) = Some (next_timer_id (window a))"
    and "synth_calls (rerun_sequencer_effect now a) = synth_calls a"
    and "store (rerun_sequencer_effect now a) = store a"
proof -
  let ?b = "sequencer_effect_cleanup a"
  have eq: "rerun_sequencer_effect now a = sequencer_effect now ?b"
    using cl by (simp add: rerun_sequencer_effect_def)
  have sb: "store ?b = store a" by (rule sequencer_effect_cleanup_tracked(4) [OF inv])
  have nb: "next_timer_id (window ?b) = next_timer_id (window a)"
    by (simp add: sequencer_effect_cleanup_eq cancel_pending_timers)
  have pb: "pendingNoteOffsRef ?b = []" by (simp add: sequencer_effect_cleanup_eq)
  show "no_seq_timers ?b" by (rule sequencer_effect_cleanup_tracked(2) [OF inv])
  show "timers (window (rerun_sequencer_effect now a)) =
           timers (window ?b) @
             [\<lparr>timer_id = next_timer_id (window a), timer_delay = (60000 / tempo (store a)) / 4,
               timer_repeats = True,
               timer_callback = SeqTick ((60000 / tempo (store a)) / 4) (currentStep (store a))\<rparr>]"
    using run sb nb by (simp add: eq sequencer_effect_def setInterval_def new_timer_def Let_def)
  show "pendingNoteOffsRef (rerun_sequencer_effect now a) = []"
    using run sb pb by (simp add: eq sequencer_effect_def setInterval_def new_timer_def Let_def)
  show "sequencerIntervalRef (rerun_sequencer_effect now a) = Some (next_timer_id (window a))"
    using run sb nb by (simp add: eq sequencer_effect_def setInterval_def new_timer_def Let_def)
  show "synth_calls (rerun_sequencer_effect now a) = synth_calls a"
    using run sb by (simp add: eq sequencer_effect_def setInterval_def new_timer_def Let_def)
  show "store (rerun_sequencer_effect now a) = store a"
    using run sb by (simp add: eq sequencer_effect_def setInterval_def new_timer_def Let_def)
qed

lemma rerun_running_no_noteOffs:
  assumes inv: "seq_timers_tracked a"
      and cl: "effect_has_cleanup a"
      and run: "isSequencerRunning (store a)"
  shows "list_all (\<lambda>t. \<not> is_noteOff (timer_callback t)) (timers (window (rerun_sequencer_effect now a)))"
  using rerun_running(2) [OF assms]
  by (simp add: rerun_running(1) [OF assms] no_seq_timers_iff)

lemma fire_timer_calls:
  assumes nn: "list_all (\<lambda>t. \<not> is_noteOff (timer_callback t)) (timers (window a))"
  shows "\<exists>cs. synth_calls (state_of (fire_timer k now a)) = synth_calls a @ cs
              \<and> (\<forall>n. Call_noteOff n \<notin> set cs)"
proof (cases "find_timer k (window a)")
  case None
  then show ?thesis by (simp add: fire_timer_def state_of_def)
next
  case (Some t)
  let ?a0 = "a\<lparr>window := (if timer_repeats t then window a else clearTimeout k (window a)),
               fired := fired a @ [timer_callback t]\<rparr>"
  from find_timer_Some [OF Some] have t: "t \<in> set (timers (window a))" by simp
  with nn have nt: "\<not> is_noteOff (timer_callback t)" by (simp add: list_all_iff)
  show ?thesis
  proof (cases "timer_callback t")
    case (SeqTick ms ns)
    let ?a1 = "tick_advance k ms ((ns + 1) mod 16) ?a0"
    have fire: "fire_timer k now a = sequencer_tick k ms ns now ?a0"
      using Some SeqTick by (simp add: fire_timer_def Let_def)
    from sequencer_tick_cases [of k ms ns now ?a0] show ?thesis
    proof
      assume "state_of (sequencer_tick k ms ns now ?a0) = ?a1"
      then show ?thesis by (simp add: fire)
    next
      assume "\<exists>nt n vel sl. state_of (sequencer_tick k ms ns now ?a0) =
         schedule_noteOff ms nt (app_noteOn n vel sl now ?a1)"
      then obtain nt n vel sl where st: "state_of (sequencer_tick k ms ns now ?a0) =
         schedule_noteOff ms nt (app_noteOn n vel sl now ?a1)" by blast
      show ?thesis by (simp add: fire st app_noteOn_calls)
    qed
  next
    case (SeqNoteOff n)
    with nt show ?thesis by simp
  next
    case (ToneDisposeVoice v)
    then show ?thesis using Some by (simp add: fire_timer_def Let_def state_of_def)
  next
    case ToneStopAllDispose
    then show ?thesis using Some by (simp add: fire_timer_def Let_def state_of_def)
  next
    case (WebAudioDeleteNote n)
    then show ?thesis using Some by (simp add: fire_timer_def Let_def state_of_def)
  qed
qed

text \<open>
  The example run \<open>starting\<close>: its state, and the queue after the first tick (timer 3 at
  time 3), after the commit that follows the tick, and when the note-off timeout (timer
  4) would be due.
\<close>

lemma starting_run: "app_run starting initial_App = Some running_App"
proof -
  obtain a where "app_run starting initial_App = Some a"
    using app_run_defined [of starting initial_App]
    by (auto simp: starting_def mounting_def)
  then show ?thesis by (simp add: running_App_def)
qed

lemma running_App_fields:
  "isSequencerRunning (store running_App)"
  "tempo (store running_App) = 120"
  "currentStep (store running_App) = 0"
  "synthRef running_App \<noteq> None"
  "array_get (sequencerStepsRef running_App) 1 = Some some_step"
  "find_timer 3 (window running_App) =
     Some \<lparr>timer_id = 3, timer_delay = 125, timer_repeats = True, timer_callback = SeqTick 125 0\<rparr>"
  "noteOff_schedule (window running_App) = []"
  "synth_calls running_App =
     [Call_updateParams (all_params (preset_params preset_bassDeep)), Call_stopAllNotes,
      Call_updateParams (all_params (preset_params preset_bassDeep)), Call_stopAllNotes]"
  unfolding running_App_def starting_def mounting_def
  by (simp_all add: init_effect_def loadPreset_bassDeep store_generateRandomSequence_def
      generateRandomSequence_draws_half params_effect_def tone_updateParams_def steps_effect_def
      rerun_sequencer_effect_def sequencer_effect_def clear_sequencer_interval_def stopAllAudio_def
      app_stopAllNotes_def setTimeout_def setInterval_def new_timer_def setSequencerStep_def
      array_set_def array_get_def setTempo_def setIsSequencerRunning_def initial_App_def
      initial_store_def empty_browser_def tone_constructor_def find_timer_def noteOff_schedule_def
      noteOff_entry_def Let_def split_beta)

lemma running_App_clock:
  "timers (window running_App) =
     [\<lparr>timer_id = 1, timer_delay = 350, timer_repeats = False, timer_callback = ToneStopAllDispose\<rparr>,
      \<lparr>timer_id = 2, timer_delay = 350, timer_repeats = False, timer_callback = ToneStopAllDispose\<rparr>,
      \<lparr>timer_id = 3, timer_delay = 125, timer_repeats = True, timer_callback = SeqTick 125 0\<rparr>]"
  "next_timer_id (window running_App) = 4"
  "pendingNoteOffsRef running_App = []"
  "sequencerIntervalRef running_App = Some 3"
  "effect_has_cleanup running_App"
  "synthRef running_App =
     Some (tone_constructor\<lparr>tone_params := preset_params preset_bassDeep\<rparr>)"
  "fired running_App = []"
  unfolding running_App_def starting_def mounting_def
  by (simp_all add: init_effect_def loadPreset_bassDeep store_generateRandomSequence_def
      generateRandomSequence_draws_half params_effect_def tone_updateParams_def steps_effect_def
      rerun_sequencer_effect_def sequencer_effect_def clear_sequencer_interval_def stopAllAudio_def
      app_stopAllNotes_def setTimeout_def setInterval_def new_timer_def setSequencerStep_def
      array_set_def array_get_def setTempo_def setIsSequencerRunning_def initial_App_def
      initial_store_def empty_browser_def tone_constructor_def find_timer_def 
      Let_def split_beta merge_params_def all_params_def preset_bassDeep_def constructor_params_def)

lemma ticked_App_clock:
  "timers (window (state_of (fire_timer 3 3 running_App))) =
     [\<lparr>timer_id = 1, timer_delay = 350, timer_repeats = False, timer_callback = ToneStopAllDispose\<rparr>,
      \<lparr>timer_id = 2, timer_delay = 350, timer_repeats = False, timer_callback = ToneStopAllDispose\<rparr>,
      \<lparr>timer_id = 3, timer_delay = 125, timer_repeats = True, timer_callback = SeqTick 125 1\<rparr>,
      \<lparr>timer_id = 4, timer_delay = 112.5, timer_repeats = False, timer_callback = SeqNoteOff 60\<rparr>]"
  "next_timer_id (window (state_of (fire_timer 3 3 running_App))) = 5"
  "pendingNoteOffsRef (state_of (fire_timer 3 3 running_App)) = [4]"
  "sequencerIntervalRef (state_of (fire_timer 3 3 running_App)) = Some 3"
  "effect_has_cleanup (state_of (fire_timer 3 3 running_App))"
  "isSequencerRunning (store (state_of (fire_timer 3 3 running_App)))"
  "tempo (store (state_of (fire_timer 3 3 running_App))) = 120"
  "currentStep (store (state_of (fire_timer 3 3 running_App))) = 1"
  "fired (state_of (fire_timer 3 3 running_App)) = [SeqTick 125 0]"
  using running_App_fields running_App_clock
  by (simp_all add: fire_timer_def find_timer_def sequencer_tick_def tick_advance_def set_closure_def
      schedule_noteOff_def app_noteOn_def setTimeout_def new_timer_def Let_def state_of_def
      some_step_def setCurrentStep_def tone_constructor_def Set_has_def Set_add_def split_beta)

lemma committed_App_clock:
  "timers (window (tick_and_commit 3 3 running_App)) =
     [\<lparr>timer_id = 1, timer_delay = 350, timer_repeats = False, timer_callback = ToneStopAllDispose\<rparr>,
      \<lparr>timer_id = 2, timer_delay = 350, timer_repeats = False, timer_callback = ToneStopAllDispose\<rparr>,
      \<lparr>timer_id = 5, timer_delay = 125, timer_repeats = True, timer_callback = SeqTick 125 1\<rparr>]"
  "fired (tick_and_commit 3 3 running_App) = [SeqTick 125 0]"
  using ticked_App_clock running_App_fields(3)
  by (simp_all add: tick_and_commit_def commit_sequencer_effect_def sequencer_deps_changed_def
      rerun_sequencer_effect_def sequencer_effect_cleanup_def clear_sequencer_interval_def
      sequencer_effect_def setInterval_def new_timer_def clearTimeout_def clearInterval_def Let_def
      split_beta)

lemma noteOff_timeout_never_fires:
  "fire_timer 4 now (tick_and_commit 3 3 running_App) = Inr (tick_and_commit 3 3 running_App)"
  by (simp add: fire_timer_def find_timer_def committed_App_clock)

section \<open>Claims on the sequencer clock\<close>

text \<open>
  C4. Let the component be in any state its events lead to, the sequencer running, its
  interval in the queue holding the current step, a synthesizer present and a step defined
  at the next index. When the interval fires, the current step becomes
  \<open>(currentStep + 1) mod 16\<close>, and exactly when the step at the new index is enabled and
  has a note above 0, \<^verbatim>\<open>noteOn(note, velocity, slide ? 0.3 : 0)\<close> is called and a timeout
  for \<^verbatim>\<open>noteOff(note)\<close> is registered with delay \<^verbatim>\<open>stepPeriod * duration * 0.9\<close> ms; a
  note-off timeout of the queue, were it to fire now, would call \<^verbatim>\<open>noteOff\<close> for its
  note. The commit that follows the tick re-runs the sequencer effect, because the current
  step has changed: the new interval has the period \<^verbatim>\<open>(60000 / tempo) / 4\<close> ms and holds
  the new step, no call is made to the synthesizer, and the timeout just registered is
  cleared with every other pending note-off. So the queue holds no note-off timeout of the
  sequencer, and whichever timer fires next, the component makes no call of \<^verbatim>\<open>noteOff\<close>:
  the note-off the tick has scheduled is never issued.
\<close>

theorem C4_noteOff_cancelled_by_effect_rerun:
  assumes reach: "app_run history initial_App = Some a"
      and run: "isSequencerRunning (store a)"
      and tm: "find_timer tid (window a) = Some t"
      and cb: "timer_callback t = SeqTick stepMs (currentStep (store a))"
      and rep: "timer_repeats t"
      and syn: "synthRef a \<noteq> None"
      and stp: "array_get (sequencerStepsRef a) ((currentStep (store a) + 1) mod 16) = Some nt"
  shows "currentStep (store (state_of (fire_timer tid now a))) = (currentStep (store a) + 1) mod 16
         \<and> synth_calls (state_of (fire_timer tid now a)) =
             synth_calls a @
               (if step_enabled nt \<and> step_note nt > 0
                then [Call_noteOn (step_note nt) (step_velocity nt) (if step_slide nt then 0.3 else 0)]
                else [])
         \<and> noteOff_schedule (window (state_of (fire_timer tid now a))) =
             noteOff_schedule (window a) @
               (if step_enabled nt \<and> step_note nt > 0
                then [(step_note nt, stepMs * step_duration nt * 0.9)]
                else [])
         \<and> (\<forall>k u n now'.
               find_timer k (window (state_of (fire_timer tid now a))) = Some u
               \<and> timer_callback u = SeqNoteOff n \<longrightarrow>
               synth_calls (state_of (fire_timer k now' (state_of (fire_timer tid now a)))) =
                 synth_calls (state_of (fire_timer tid now a)) @ [Call_noteOff n])
         \<and> tick_and_commit tid now a = rerun_sequencer_effect now (state_of (fire_timer tid now a))
         \<and> last (timers (window (tick_and_commit tid now a))) =
             \<lparr>timer_id = next_timer_id (window (state_of (fire_timer tid now a))),
              timer_delay = (60000 / tempo (store a)) / 4, timer_repeats = True,
              timer_callback = SeqTick ((60000 / tempo (store a)) / 4) ((currentStep (store a) + 1) mod 16)\<rparr>
         \<and> currentStep (store (tick_and_commit tid now a)) = (currentStep (store a) + 1) mod 16
         \<and> synth_calls (tick_and_commit tid now a) = synth_calls (state_of (fire_timer tid now a))
         \<and> noteOff_schedule (window (tick_and_commit tid now a)) = []
         \<and> pendingNoteOffsRef (tick_and_commit tid now a) = []
         \<and> (\<forall>k now'. \<exists>cs.
               synth_calls (state_of (fire_timer k now' (tick_and_commit tid now a))) =
                 synth_calls (tick_and_commit tid now a) @ cs
               \<and> (\<forall>n. Call_noteOff n \<notin> set cs))"
proof -
  let ?a1 = "state_of (fire_timer tid now a)"
  let ?c = "tick_and_commit tid now a"
  let ?ns = "(currentStep (store a) + 1) mod 16"
  have inv: "seq_timers_tracked a"
    by (rule app_run_tracked [OF initial_App_tracked reach])
  have inv1: "seq_timers_tracked ?a1" by (rule fire_timer_tracked [OF inv])
  from find_timer_Some [OF tm] have t: "t \<in> set (timers (window a))" by simp
  with inv have "tracked a t" by (simp add: seq_timers_tracked_def list_all_iff)
  moreover have "is_tick (timer_callback t)" by (simp add: cb)
  ultimately have cl: "effect_has_cleanup a" using tracked_tick by blast
  note fr = fire_tick_frame [OF tm cb rep, of now]
  have st1: "store ?a1 = setCurrentStep ?ns (store a)" by (rule fr(1))
  have cl1: "effect_has_cleanup ?a1" using fr(2) cl by simp
  have syn1: "synthRef ?a1 \<noteq> None" using fr(3) syn by simp
  have due: "\<forall>k u n now'.
      find_timer k (window ?a1) = Some u \<and> timer_callback u = SeqNoteOff n \<longrightarrow>
      synth_calls (state_of (fire_timer k now' ?a1)) = synth_calls ?a1 @ [Call_noteOff n]"
    using fire_noteOff_calls [OF _ _ syn1] by blast
  have run1: "isSequencerRunning (store ?a1)" using run by (simp add: st1 setCurrentStep_def)
  have tempo1: "tempo (store ?a1) = tempo (store a)" by (simp add: st1 setCurrentStep_def)
  have cur1: "currentStep (store ?a1) = ?ns" by (simp add: st1 setCurrentStep_def)
  have "?ns \<noteq> currentStep (store a)" by presburger
  then have commit: "?c = rerun_sequencer_effect now ?a1"
    using cur1 by (simp add: tick_and_commit_def commit_sequencer_effect_def sequencer_deps_changed_def)
  note rr = rerun_running [OF inv1 cl1 run1]
  have lst: "last (timers (window ?c)) =
             \<lparr>timer_id = next_timer_id (window ?a1),
              timer_delay = (60000 / tempo (store a)) / 4, timer_repeats = True,
              timer_callback = SeqTick ((60000 / tempo (store a)) / 4) ?ns\<rparr>"
    by (simp add: commit rr(1) tempo1 cur1)
  have curc: "currentStep (store ?c) = ?ns" by (simp add: commit rr(6) cur1)
  have callsc: "synth_calls ?c = synth_calls ?a1" by (simp add: commit rr(5))
  have nn: "list_all (\<lambda>t. \<not> is_noteOff (timer_callback t)) (timers (window ?c))"
    unfolding commit by (rule rerun_running_no_noteOffs [OF inv1 cl1 run1])
  have sched: "noteOff_schedule (window ?c) = []" by (rule no_noteOffs_schedule [OF nn])
  have pend: "pendingNoteOffsRef ?c = []" by (simp add: commit rr(3))
  have later: "\<forall>k now'. \<exists>cs. synth_calls (state_of (fire_timer k now' ?c)) = synth_calls ?c @ cs
               \<and> (\<forall>n. Call_noteOff n \<notin> set cs)"
    using fire_timer_calls [OF nn] by blast
  note te = sequencer_tick_effects [OF run tm cb rep syn stp, where now = now and ?now0.0 = now]
  have calls1: "synth_calls ?a1 = synth_calls a @
               (if step_enabled nt \<and> step_note nt > 0
                then [Call_noteOn (step_note nt) (step_velocity nt) (if step_slide nt then 0.3 else 0)]
                else [])"
    using te by blast
  have sched1: "noteOff_schedule (window ?a1) = noteOff_schedule (window a) @
               (if step_enabled nt \<and> step_note nt > 0
                then [(step_note nt, stepMs * step_duration nt * 0.9)]
                else [])"
    using te by blast
  show ?thesis
    using cur1 calls1 sched1 due commit lst curc callsc sched pend later by blast
qed

text \<open>
  The first tick of the example run at tempo 120: \<^verbatim>\<open>noteOn(60, 1, 0)\<close> is called and the
  note-off for 60 is registered with delay 112.5 ms; after the commit the new interval has
  period 125 ms, the current step is 1, and no note-off is pending.
\<close>

theorem C4_noteOff_cancelled_by_effect_rerun_witness:
  "currentStep (store (tick_and_commit 3 3 running_App)) = 1
   \<and> synth_calls (tick_and_commit 3 3 running_App) = synth_calls running_App @ [Call_noteOn 60 1 0]
   \<and> noteOff_schedule (window (state_of (fire_timer 3 3 running_App))) = [(60, 112.5)]
   \<and> synth_calls (state_of (fire_timer 4 4 (state_of (fire_timer 3 3 running_App)))) =
       synth_calls running_App @ [Call_noteOn 60 1 0, Call_noteOff 60]
   \<and> timer_delay (last (timers (window (tick_and_commit 3 3 running_App)))) = 125
   \<and> noteOff_schedule (window (tick_and_commit 3 3 running_App)) = []
   \<and> pendingNoteOffsRef (tick_and_commit 3 3 running_App) = []"
proof -
  let ?t = "\<lparr>timer_id = 3, timer_delay = 125, timer_repeats = True, timer_callback = SeqTick 125 0\<rparr>"
  have cb: "timer_callback ?t = SeqTick 125 (currentStep (store running_App))"
    by (simp add: running_App_fields)
  have rep: "timer_repeats ?t" by simp
  have stp: "array_get (sequencerStepsRef running_App) ((currentStep (store running_App) + 1) mod 16)
      = Some some_step"
    using running_App_fields by simp
  note th = C4_noteOff_cancelled_by_effect_rerun
    [OF starting_run running_App_fields(1) running_App_fields(6) cb rep running_App_fields(4) stp,
     of 3]
  have r1: "currentStep (store (tick_and_commit 3 3 running_App)) =
      (currentStep (store running_App) + 1) mod 16"
    using th by blast
  have r2: "synth_calls (tick_and_commit 3 3 running_App) =
      synth_calls (state_of (fire_timer 3 3 running_App))"
    using th by blast
  have r3: "synth_calls (state_of (fire_timer 3 3 running_App)) =
      synth_calls running_App @
        (if step_enabled some_step \<and> step_note some_step > 0
         then [Call_noteOn (step_note some_step) (step_velocity some_step)
                 (if step_slide some_step then 0.3 else 0)]
         else [])"
    using th by blast
  have r4: "noteOff_schedule (window (state_of (fire_timer 3 3 running_App))) =
      noteOff_schedule (window running_App) @
        (if step_enabled some_step \<and> step_note some_step > 0
         then [(step_note some_step, 125 * step_duration some_step * 0.9)]
         else [])"
    using th by blast
  have r5: "last (timers (window (tick_and_commit 3 3 running_App))) =
      \<lparr>timer_id = next_timer_id (window (state_of (fire_timer 3 3 running_App))),
       timer_delay = (60000 / tempo (store running_App)) / 4, timer_repeats = True,
       timer_callback = SeqTick ((60000 / tempo (store running_App)) / 4)
                          ((currentStep (store running_App) + 1) mod 16)\<rparr>"
    using th by blast
  have c1: "currentStep (store (tick_and_commit 3 3 running_App)) = 1"
    using r1 running_App_fields(3) by simp
  have c2: "synth_calls (tick_and_commit 3 3 running_App) = synth_calls running_App @ [Call_noteOn 60 1 0]"
    using r2 r3 by (simp add: some_step_def)
  have c3: "noteOff_schedule (window (state_of (fire_timer 3 3 running_App))) = [(60, 112.5)]"
    using r4 running_App_fields(7) by (simp add: some_step_def)
  have c4: "timer_delay (last (timers (window (tick_and_commit 3 3 running_App)))) = 125"
    using r5 running_App_fields(2) by simp
  have r6: "\<forall>k u n now'.
      find_timer k (window (state_of (fire_timer 3 3 running_App))) = Some u
      \<and> timer_callback u = SeqNoteOff n \<longrightarrow>
      synth_calls (state_of (fire_timer k now' (state_of (fire_timer 3 3 running_App)))) =
        synth_calls (state_of (fire_timer 3 3 running_App)) @ [Call_noteOff n]"
    using th by blast
  have ft4: "find_timer 4 (window (state_of (fire_timer 3 3 running_App))) =
      Some \<lparr>timer_id = 4, timer_delay = 112.5, timer_repeats = False, timer_callback = SeqNoteOff 60\<rparr>"
    by (simp add: find_timer_def ticked_App_clock)
  have c7: "synth_calls (state_of (fire_timer 4 4 (state_of (fire_timer 3 3 running_App)))) =
      synth_calls running_App @ [Call_noteOn 60 1 0, Call_noteOff 60]"
  proof -
    let ?u = "\<lparr>timer_id = 4, timer_delay = 112.5, timer_repeats = False, timer_callback = SeqNoteOff 60\<rparr>"
    from r6 have "find_timer 4 (window (state_of (fire_timer 3 3 running_App))) = Some ?u
        \<and> timer_callback ?u = SeqNoteOff 60 \<longrightarrow>
        synth_calls (state_of (fire_timer 4 4 (state_of (fire_timer 3 3 running_App)))) =
          synth_calls (state_of (fire_timer 3 3 running_App)) @ [Call_noteOff 60]"
      by blast
    then show ?thesis using ft4 r3 by (simp add: some_step_def)
  qed
  have c5: "noteOff_schedule (window (tick_and_commit 3 3 running_App)) = []"
    using th by blast
  have c6: "pendingNoteOffsRef (tick_and_commit 3 3 running_App) = []"
    using th by blast
  from c1 c2 c3 c4 c5 c6 c7 show ?thesis by blast
qed

text \<open>
  C5. Let the component be in any state its events lead to, and let the sequencer be
  stopped there (the running flag is set to false and React re-runs the effect). Then
  the interval ref is empty, the set of pending note-offs is empty, and the queue holds
  neither the sequencer's interval nor any of its note-off timeouts; with a synthesizer
  present, \<^verbatim>\<open>stopAllNotes()\<close> has been called on it, followed by \<^verbatim>\<open>noteOff\<close> for
  every active key. Whatever events follow, as long as play is not toggled again, the
  queue never holds a timer of the sequencer and none of the timers that fire is one.
\<close>

theorem C5_stop_cancels_sequencer_timers:
  assumes "app_run history initial_App = Some a"
      and "Ev_togglePlay \<notin> set later"
      and "app_run later (stop_sequencer now a) = Some a'"
  shows "sequencerIntervalRef (stop_sequencer now a) = None
         \<and> pendingNoteOffsRef (stop_sequencer now a) = []
         \<and> no_seq_timers (stop_sequencer now a)
         \<and> synth_calls (stop_sequencer now a) =
             synth_calls a @ (if synthRef a = None then []
                              else Call_stopAllNotes # map Call_noteOff (activeKeys (store a)))
         \<and> no_seq_timers a'
         \<and> list_all (\<lambda>cb. \<not> is_seq_callback cb) (drop (length (fired a)) (fired a'))"
proof -
  let ?a0 = "a\<lparr>store := setIsSequencerRunning False (store a)\<rparr>"
  have inv: "seq_timers_tracked a"
    by (rule app_run_tracked [OF initial_App_tracked assms(1)])
  have "same_sequencer a ?a0" by (simp add: same_sequencer_def)
  then have inv0: "seq_timers_tracked ?a0" using inv by (rule same_sequencer_tracked)
  have nr: "\<not> isSequencerRunning (store ?a0)" by (simp add: setIsSequencerRunning_def)
  have stop: "stop_sequencer now a = rerun_sequencer_effect now ?a0"
    by (simp add: stop_sequencer_def)
  note r = rerun_sequencer_effect_tracked [OF inv0, of now]
  have q: "stopped_quiet (stop_sequencer now a)" using r(3) nr by (simp add: stop)
  have f: "fired (stop_sequencer now a) = fired a" using r(2) by (simp add: stop)
  from app_run_quiet [OF q assms(2,3)] obtain ext
    where q': "stopped_quiet a'" and ext: "fired a' = fired (stop_sequencer now a) @ ext"
      and ns: "list_all (\<lambda>cb. \<not> is_seq_callback cb) ext"
    by (auto simp: quiet_step_def)
  have "drop (length (fired a)) (fired a') = ext" using ext f by simp
  then show ?thesis
    using r(4,5) nr q q' ns stop_sequencer_calls [of now a]
    by (simp add: stop stopped_quiet_def)
qed

text \<open>
  Stopping the example run after its first tick: the interval and the pending note-off
  are in the queue before, none of them after, and none fires among the later events.
\<close>

theorem C5_stop_cancels_sequencer_timers_witness:
  "\<not> no_seq_timers playing_App
   \<and> no_seq_timers (stop_sequencer 2 playing_App)
   \<and> sequencerIntervalRef (stop_sequencer 2 playing_App) = None
   \<and> pendingNoteOffsRef (stop_sequencer 2 playing_App) = []
   \<and> synth_calls (stop_sequencer 2 playing_App) = [Call_noteOn 60 1 0, Call_stopAllNotes]
   \<and> no_seq_timers (the (app_run after_stop (stop_sequencer 2 playing_App)))
   \<and> list_all (\<lambda>cb. \<not> is_seq_callback cb)
        (drop 1 (fired (the (app_run after_stop (stop_sequencer 2 playing_App)))))"
proof -
  have later: "Ev_togglePlay \<notin> set after_stop" by (simp add: after_stop_def)
  obtain a' where a': "app_run after_stop (stop_sequencer 2 playing_App) = Some a'"
    using app_run_defined [of after_stop "stop_sequencer 2 playing_App"]
    by (auto simp: after_stop_def)
  from C5_stop_cancels_sequencer_timers [OF playing_App_run later a']
  show ?thesis
    using playing_App_seq_timers playing_App_fields a'
    by simp
qed

end
